theory Spec2Isabelle
  imports Main
begin

section \<open>Data: bytes, text, exceptions\<close>

text \<open>
  A Python \<^verbatim>\<open>bytes\<close> object is a list of 8-bit characters; a Python \<^verbatim>\<open>str\<close> is a list
  of Unicode code points (numbers below \<open>0x110000\<close>).  Both programs fix the same
  configuration constants at module level.
\<close>

type_synonym bytes = "char list"

type_synonym str = "nat list"

definition HEADER :: int where
  "HEADER = 64"

definition MSG_DISCONNECT :: str where
  "MSG_DISCONNECT = map of_char ''!Disconnect''"

text \<open>
  The exception classes that occur.  All of them derive from \<^verbatim>\<open>Exception\<close>;
  \<^verbatim>\<open>UnicodeDecodeError\<close> and \<^verbatim>\<open>UnicodeEncodeError\<close> derive from \<^verbatim>\<open>ValueError\<close>,
  which is what \<^verbatim>\<open>except ValueError\<close> matches on.  \<open>OtherError name\<close> is any other
  subclass of \<^verbatim>\<open>Exception\<close> (an \<^verbatim>\<open>OSError\<close> such as \<^verbatim>\<open>TimeoutError\<close>,
  \<^verbatim>\<open>MemoryError\<close>, ...).
\<close>

datatype exn =
    ConnectionResetError
  | BrokenPipeError
  | ValueError
  | UnicodeDecodeError
  | UnicodeEncodeError
  | OverflowError
  | EOFError
  | OtherError string

definition isinstance_ValueError :: "exn \<Rightarrow> bool" where
  "isinstance_ValueError e = (e = ValueError \<or> e = UnicodeDecodeError \<or> e = UnicodeEncodeError)"

section \<open>The text encoding \<^verbatim>\<open>FORMAT = 'utf-8'\<close>\<close>

text \<open>
  \<^verbatim>\<open>s.encode('utf-8')\<close>: one to four bytes per code point; a surrogate code point
  raises \<^verbatim>\<open>UnicodeEncodeError\<close>.
\<close>

definition encode_cp :: "nat \<Rightarrow> exn + bytes" where
  "encode_cp c =
     (if c < 0x80 then Inr [char_of c]
      else if c < 0x800 then Inr [char_of (0xC0 + c div 64), char_of (0x80 + c mod 64)]
      else if 0xD800 \<le> c \<and> c \<le> 0xDFFF then Inl UnicodeEncodeError
      else if c < 0x10000 then
        Inr [char_of (0xE0 + c div 4096), char_of (0x80 + c div 64 mod 64),
             char_of (0x80 + c mod 64)]
      else
        Inr [char_of (0xF0 + c div 262144), char_of (0x80 + c div 4096 mod 64),
             char_of (0x80 + c div 64 mod 64), char_of (0x80 + c mod 64)])"

fun utf8_encode :: "str \<Rightarrow> exn + bytes" where
  "utf8_encode [] = Inr []"
| "utf8_encode (c # cs) =
     (case encode_cp c of
        Inl e \<Rightarrow> Inl e
      | Inr b \<Rightarrow> (case utf8_encode cs of Inl e \<Rightarrow> Inl e | Inr bs \<Rightarrow> Inr (b @ bs)))"

text \<open>
  \<^verbatim>\<open>b.decode('utf-8')\<close> with the default strict error handling: a byte sequence that
  is not well-formed UTF-8 (stray continuation byte, truncated sequence, overlong form,
  surrogate, value above \<open>0x10FFFF\<close>) raises \<^verbatim>\<open>UnicodeDecodeError\<close>.
\<close>

definition cont :: "char \<Rightarrow> bool" where
  "cont b = (0x80 \<le> (of_char b :: nat) \<and> (of_char b :: nat) \<le> 0xBF)"

definition low6 :: "char \<Rightarrow> nat" where
  "low6 b = of_char b mod 64"

definition prepend :: "nat \<Rightarrow> exn + str \<Rightarrow> exn + str" where
  "prepend c r = (case r of Inl e \<Rightarrow> Inl e | Inr cs \<Rightarrow> Inr (c # cs))"

fun utf8_decode :: "bytes \<Rightarrow> exn + str" where
  "utf8_decode [] = Inr []"
| "utf8_decode (b # bs) =
     (let v = (of_char b :: nat) in
      if v < 0x80 then prepend v (utf8_decode bs)
      else if 0xC2 \<le> v \<and> v \<le> 0xDF then
        (case bs of
           b1 # r \<Rightarrow>
             if cont b1 then prepend ((v - 0xC0) * 64 + low6 b1) (utf8_decode r)
             else Inl UnicodeDecodeError
         | _ \<Rightarrow> Inl UnicodeDecodeError)
      else if 0xE0 \<le> v \<and> v \<le> 0xEF then
        (case bs of
           b1 # b2 # r \<Rightarrow>
             (let c = (v - 0xE0) * 4096 + low6 b1 * 64 + low6 b2 in
              if cont b1 \<and> cont b2 \<and> 0x800 \<le> c \<and> \<not> (0xD800 \<le> c \<and> c \<le> 0xDFFF)
              then prepend c (utf8_decode r)
              else Inl UnicodeDecodeError)
         | _ \<Rightarrow> Inl UnicodeDecodeError)
      else if 0xF0 \<le> v \<and> v \<le> 0xF4 then
        (case bs of
           b1 # b2 # b3 # r \<Rightarrow>
             (let c = (v - 0xF0) * 262144 + low6 b1 * 4096 + low6 b2 * 64 + low6 b3 in
              if cont b1 \<and> cont b2 \<and> cont b3 \<and> 0x10000 \<le> c \<and> c \<le> 0x10FFFF
              then prepend c (utf8_decode r)
              else Inl UnicodeDecodeError)
         | _ \<Rightarrow> Inl UnicodeDecodeError)
      else Inl UnicodeDecodeError)"

section \<open>\<^verbatim>\<open>str(n)\<close> and \<^verbatim>\<open>int(s)\<close>\<close>

text \<open>\<^verbatim>\<open>str(n)\<close> for a length \<open>n \<ge> 0\<close>: its decimal digits, most significant first.\<close>

fun py_str :: "nat \<Rightarrow> str" where
  "py_str n = (if n < 10 then [0x30 + n] else py_str (n div 10) @ [0x30 + n mod 10])"

declare py_str.simps [simp del]

text \<open>
  What the programs take from the interpreter they run on, and what is no part of this
  repository: the Unicode database, which classifies code points as white space and as
  decimal digits, and the encoding of the standard output, given by the code points it
  can encode (with the strict error handling that \<^verbatim>\<open>sys.stdout\<close> has).  Both are
  parameters here.
\<close>

record interpreter =
  Py_UNICODE_ISSPACE :: "nat \<Rightarrow> bool"
  Py_UNICODE_TODECIMAL :: "nat \<Rightarrow> nat option"
  stdout_encodes :: "nat \<Rightarrow> bool"

text \<open>
  \<^verbatim>\<open>int(s)\<close> for a \<^verbatim>\<open>str\<close> argument, as CPython computes it.  The string is first made
  ASCII: a code point below 127 stays, any other one becomes a space when the Unicode
  database classifies it as white space, the ASCII digit of its value when the database
  classifies it as a decimal digit, and makes the literal invalid otherwise.  (Recent
  interpreters also refuse a literal of more than 4300 digits; the handler gives \<^verbatim>\<open>int\<close>
  at most 64 bytes, and that limit is left out.)
\<close>

fun transform_to_ascii :: "interpreter \<Rightarrow> str \<Rightarrow> str option" where
  "transform_to_ascii U [] = Some []"
| "transform_to_ascii U (c # cs) =
     (if c < 127 then map_option ((#) c) (transform_to_ascii U cs)
      else if Py_UNICODE_ISSPACE U c then map_option ((#) 0x20) (transform_to_ascii U cs)
      else (case Py_UNICODE_TODECIMAL U c of
              None \<Rightarrow> None
            | Some d \<Rightarrow> map_option ((#) (0x30 + d)) (transform_to_ascii U cs)))"

text \<open>
  The ASCII string is then parsed in base 10: leading white space (space, and the
  control characters \<open>0x09\<close> to \<open>0x0D\<close>), an optional sign, digits that single
  underscores may separate (none leading, none trailing, no two in a row, at least one
  digit), trailing white space, and nothing else.
\<close>

definition Py_ISSPACE :: "nat \<Rightarrow> bool" where
  "Py_ISSPACE c = (c = 0x20 \<or> (0x09 \<le> c \<and> c \<le> 0x0D))"

definition is_digit :: "nat \<Rightarrow> bool" where
  "is_digit c = (0x30 \<le> c \<and> c \<le> 0x39)"

text \<open>
  The scanning loop: \<open>prev\<close> is the previous character (\<open>0\<close> at the start), \<open>digits\<close>
  counts the digits seen and \<open>v\<close> accumulates their value.  It stops at the first
  character that is neither a digit nor an underscore and returns what is left.
\<close>

fun scan :: "nat \<Rightarrow> nat \<Rightarrow> nat \<Rightarrow> str \<Rightarrow> (nat \<times> nat \<times> nat \<times> str) option" where
  "scan prev digits v [] = Some (prev, digits, v, [])"
| "scan prev digits v (c # cs) =
     (if c = 0x5F then (if prev = 0x5F then None else scan c digits v cs)
      else if is_digit c then scan c (digits + 1) (10 * v + (c - 0x30)) cs
      else Some (prev, digits, v, c # cs))"

definition PyLong_FromString :: "str \<Rightarrow> int option" where
  "PyLong_FromString s =
     (let s1 = dropWhile Py_ISSPACE s;
          sign = (if s1 \<noteq> [] \<and> hd s1 = 0x2D then - 1 else (1 :: int));
          s2 = (if s1 \<noteq> [] \<and> (hd s1 = 0x2B \<or> hd s1 = 0x2D) then tl s1 else s1)
      in if s2 \<noteq> [] \<and> hd s2 = 0x5F then None
         else (case scan 0 0 0 s2 of
                 None \<Rightarrow> None
               | Some (prev, digits, v, rest) \<Rightarrow>
                   if prev = 0x5F \<or> digits = 0 then None
                   else if dropWhile Py_ISSPACE rest \<noteq> [] then None
                   else Some (sign * int v)))"

definition py_int :: "interpreter \<Rightarrow> str \<Rightarrow> exn + int" where
  "py_int U s =
     (case transform_to_ascii U s of
        None \<Rightarrow> Inl ValueError
      | Some a \<Rightarrow> (case PyLong_FromString a of None \<Rightarrow> Inl ValueError | Some n \<Rightarrow> Inr n))"

section \<open>Sockets and the console, as the programs see them\<close>

text \<open>
  Both programs are sequential code around blocking calls on one connected socket.  The
  peer and the network are a script of what successive calls will meet: \<open>rx\<close> for
  \<^verbatim>\<open>recv\<close>, \<open>tx\<close> for \<^verbatim>\<open>send\<close>.

  \<^item> \<open>Data bs\<close>: the bytes \<open>bs\<close> have arrived when the call looks.  \<^verbatim>\<open>recv(n)\<close> returns at
    most \<open>n\<close> of them and leaves the others for the next call.
  \<^item> \<open>Eof\<close>: the peer has shut down; \<^verbatim>\<open>recv\<close> returns \<^verbatim>\<open>b''\<close>, now and later.
  \<^item> \<open>Fail e\<close>: the call raises \<open>e\<close>.
  \<^item> an exhausted \<open>rx\<close>: nothing arrives any more and the peer stays connected, so
    the call never returns (there is no timeout).
  \<^item> \<open>Accept\<close> / \<open>Refuse e\<close>: \<^verbatim>\<open>send\<close> returns / raises \<open>e\<close>; on an exhausted \<open>tx\<close>
    every further \<^verbatim>\<open>send\<close> returns.  Both programs ignore the count \<^verbatim>\<open>send\<close> returns.
\<close>

datatype rx_event = Data bytes | Fail exn | Eof

datatype tx_event = Accept | Refuse exn

record world =
  rx :: "rx_event list"
  tx :: "tx_event list"

text \<open>
  What a run does, in order: console lines, calls on the socket with what they gave,
  and \<^verbatim>\<open>input\<close> calls.  \<open>RecvWait\<close> and \<open>InputWait\<close> are calls that never return.
  Closing the socket is taken to succeed always, and so is writing a line to the console,
  but for the one line of the handler that carries text from the network (line 69,
  below): there the encoding of the standard output decides.
\<close>

type_synonym addr = "string \<times> nat"

datatype line =
    NewConnection addr \<comment> \<open>\<^verbatim>\<open>[NEW CONNECTION] {addr} connected.\<close>\<close>
  | Received addr str \<comment> \<open>\<^verbatim>\<open>[{addr}] {msg}\<close>\<close>
  | ErrorReset addr \<comment> \<open>\<^verbatim>\<open>[ERROR] Connection reset by {addr}. Client likely crashed.\<close>\<close>
  | ErrorInvalidHeader addr \<comment> \<open>\<^verbatim>\<open>[ERROR] Invalid header from {addr}. Forcing disconnect.\<close>\<close>
  | UnexpectedError addr exn \<comment> \<open>\<^verbatim>\<open>[UNEXPECTED ERROR] from {addr}: {e}\<close>\<close>
  | Closing addr \<comment> \<open>\<^verbatim>\<open>[CLOSING] Closing connection for {addr}.\<close>\<close>
  | Banner \<comment> \<open>\<^verbatim>\<open>You can now type messages. Type '!Disconnect' to quit.\<close>\<close>
  | Server str \<comment> \<open>\<^verbatim>\<open>[SERVER] {server_response}\<close>\<close>
  | ErrorLost \<comment> \<open>\<^verbatim>\<open>[ERROR] Connection to the server was lost.\<close>\<close>
  | ClosingClient \<comment> \<open>\<^verbatim>\<open>[CLOSING] Connection closed.\<close>\<close>

datatype action =
    Print line
  | Recv int "exn + bytes"
  | RecvWait int
  | Send bytes "exn option"
  | Close
  | Input "exn + str"
  | InputWait

text \<open>
  A piece of code ends normally with a value, raises an exception that it does not
  handle itself, or hangs in a blocking call for ever.
\<close>

datatype 'a result =
    Normal 'a (trace: "action list") world
  | Raise exn (trace: "action list") world
  | Block (trace: "action list")

definition prefix_acts :: "action list \<Rightarrow> 'a result \<Rightarrow> 'a result" where
  "prefix_acts acts r =
     (case r of
        Normal x a w \<Rightarrow> Normal x (acts @ a) w
      | Raise e a w \<Rightarrow> Raise e (acts @ a) w
      | Block a \<Rightarrow> Block (acts @ a))"

text \<open>
  \<^verbatim>\<open>sock.recv(bufsize)\<close>.  A negative size raises \<^verbatim>\<open>ValueError\<close>, a size that does not fit
  the C type \<^verbatim>\<open>ssize_t\<close> (64 bits) raises \<^verbatim>\<open>OverflowError\<close>, and a size of zero returns
  \<^verbatim>\<open>b''\<close> at once, all three before the socket is touched.

  Before it reads, \<^verbatim>\<open>recv\<close> allocates a buffer of \<open>bufsize\<close> bytes.  Where that fails
  depends on the machine: \<^verbatim>\<open>MemoryError\<close> for a size it cannot provide, \<^verbatim>\<open>OverflowError\<close>
  already for the few sizes just below \<open>2 ^ 63\<close>.  No bound of that kind is fixed here:
  such a call is one that raises, which the script gives as \<open>Fail e\<close>, and a script with
  \<open>Data bs\<close> under a call says that the buffer was there.
\<close>

definition PY_SSIZE_T_MAX :: int where
  "PY_SSIZE_T_MAX = 2 ^ 63 - 1"

datatype recv_result = Returns bytes world | Raises exn world | Blocks

definition recv :: "int \<Rightarrow> world \<Rightarrow> recv_result" where
  "recv bufsize w =
     (if bufsize < 0 then Raises ValueError w
      else if PY_SSIZE_T_MAX < bufsize then Raises OverflowError w
      else if bufsize = 0 then Returns [] w
      else (case rx w of
              [] \<Rightarrow> Blocks
            | Eof # r \<Rightarrow> Returns [] w
            | Fail e # r \<Rightarrow> Raises e (w\<lparr>rx := r\<rparr>)
            | Data bs # r \<Rightarrow>
                Returns (take (nat bufsize) bs)
                  (w\<lparr>rx := (if drop (nat bufsize) bs = [] then r
                             else Data (drop (nat bufsize) bs) # r)\<rparr>)))"

datatype send_result = Sent world | SendRaises exn world

definition sock_send :: "bytes \<Rightarrow> world \<Rightarrow> send_result" where
  "sock_send b w =
     (case tx w of
        [] \<Rightarrow> Sent w
      | Accept # r \<Rightarrow> Sent (w\<lparr>tx := r\<rparr>)
      | Refuse e # r \<Rightarrow> SendRaises e (w\<lparr>tx := r\<rparr>))"

section \<open>The server: \<^verbatim>\<open>handle_client\<close>\<close>

definition ACK :: str where
  "ACK = map of_char ''Message received''"

text \<open>Line 72: encode the acknowledgment and send it.  \<open>connected\<close> is the flag so far.\<close>

definition reply :: "action list \<Rightarrow> bool \<Rightarrow> world \<Rightarrow> bool result" where
  "reply acts connected w =
     (case utf8_encode ACK of
        Inl e \<Rightarrow> Raise e acts w
      | Inr a \<Rightarrow>
          (case sock_send a w of
             SendRaises e w' \<Rightarrow> Raise e (acts @ [Send a (Some e)]) w'
           | Sent w' \<Rightarrow> Normal connected (acts @ [Send a None]) w'))"

text \<open>
  Line 69, \<^verbatim>\<open>print(f"[{addr}] {msg}")\<close>, stands inside the \<^verbatim>\<open>try\<close>, and \<^verbatim>\<open>msg\<close> is whatever
  text the peer sent.  \<^verbatim>\<open>print\<close> encodes the whole line for the standard output before it
  writes any of it: when the encoding lacks a character of \<^verbatim>\<open>msg\<close> it raises
  \<^verbatim>\<open>UnicodeEncodeError\<close> and nothing is written.  (The other characters of this line and
  the other lines of the handler are ASCII, which every encoding in use has.)
\<close>

definition printable :: "interpreter \<Rightarrow> str \<Rightarrow> bool" where
  "printable U s = list_all (stdout_encodes U) s"

text \<open>Lines 62 to 72: read the message, check for the disconnect command, log, reply.\<close>

definition receive_message ::
  "interpreter \<Rightarrow> addr \<Rightarrow> action list \<Rightarrow> int \<Rightarrow> world \<Rightarrow> bool result" where
  "receive_message U addr acts msg_length w =
     (case recv msg_length w of
        Blocks \<Rightarrow> Block (acts @ [RecvWait msg_length])
      | Raises e w' \<Rightarrow> Raise e (acts @ [Recv msg_length (Inl e)]) w'
      | Returns p w' \<Rightarrow>
          (case utf8_decode p of
             Inl e \<Rightarrow> Raise e (acts @ [Recv msg_length (Inr p)]) w'
           | Inr msg \<Rightarrow>
               if printable U msg then
                 reply (acts @ [Recv msg_length (Inr p), Print (Received addr msg)])
                   (msg \<noteq> MSG_DISCONNECT) w'
               else Raise UnicodeEncodeError (acts @ [Recv msg_length (Inr p)]) w'))"

text \<open>
  Lines 51 to 59, what is done with the bytes \<open>b\<close> of the first \<^verbatim>\<open>recv\<close>: decode them,
  leave the loop (\<open>None\<close>) when the string is empty, else convert it with \<^verbatim>\<open>int\<close>.
\<close>

definition decode_header :: "interpreter \<Rightarrow> bytes \<Rightarrow> exn + int option" where
  "decode_header U b =
     (case utf8_decode b of
        Inl e \<Rightarrow> Inl e
      | Inr msg_length_header \<Rightarrow>
          if msg_length_header = [] then Inr None
          else (case py_int U msg_length_header of
                  Inl e \<Rightarrow> Inl e
                | Inr msg_length \<Rightarrow> Inr (Some msg_length)))"

text \<open>
  Lines 49 to 72, the body of the \<^verbatim>\<open>try\<close>: its value is the flag \<^verbatim>\<open>connected\<close> at the
  end of the body.
\<close>

definition try_body :: "interpreter \<Rightarrow> addr \<Rightarrow> world \<Rightarrow> bool result" where
  "try_body U addr w =
     (case recv HEADER w of
        Blocks \<Rightarrow> Block [RecvWait HEADER]
      | Raises e w' \<Rightarrow> Raise e [Recv HEADER (Inl e)] w'
      | Returns b w' \<Rightarrow>
          (case decode_header U b of
             Inl e \<Rightarrow> Raise e [Recv HEADER (Inr b)] w'
           | Inr None \<Rightarrow> Normal False [Recv HEADER (Inr b)] w'
           | Inr (Some msg_length) \<Rightarrow>
               receive_message U addr [Recv HEADER (Inr b)] msg_length w'))"

text \<open>
  Lines 48 to 86, one pass of the \<^verbatim>\<open>while\<close> body: the \<^verbatim>\<open>try\<close> with its three \<^verbatim>\<open>except\<close>
  clauses in their order.  Every exception is an \<^verbatim>\<open>Exception\<close>, so the last clause takes
  what the first two leave.
\<close>

definition except_line :: "addr \<Rightarrow> exn \<Rightarrow> line" where
  "except_line addr e =
     (if e = ConnectionResetError then ErrorReset addr
      else if isinstance_ValueError e then ErrorInvalidHeader addr
      else UnexpectedError addr e)"

definition iteration :: "interpreter \<Rightarrow> addr \<Rightarrow> world \<Rightarrow> bool result" where
  "iteration U addr w =
     (case try_body U addr w of
        Normal connected acts w' \<Rightarrow> Normal connected acts w'
      | Block acts \<Rightarrow> Block acts
      | Raise e acts w' \<Rightarrow> Normal False (acts @ [Print (except_line addr e)]) w')"

fun ev_size :: "rx_event \<Rightarrow> nat" where
  "ev_size (Data bs) = Suc (length bs)"
| "ev_size (Fail e) = 1"
| "ev_size Eof = 1"

definition rx_size :: "world \<Rightarrow> nat" where
  "rx_size w = sum_list (map ev_size (rx w))"

text \<open>
  The \<^verbatim>\<open>while connected\<close> loop returns on every script: a pass that leaves \<^verbatim>\<open>connected\<close>
  true has taken at least one byte off the script.
\<close>

lemma recv_Returns_size:
  "recv n w = Returns b w' \<Longrightarrow>
     rx_size w' \<le> rx_size w \<and> (b \<noteq> [] \<longrightarrow> rx_size w' < rx_size w)"
  by (auto simp: recv_def rx_size_def split: if_splits list.splits rx_event.splits)

lemma sock_send_Sent_size: "sock_send a w = Sent w' \<Longrightarrow> rx_size w' = rx_size w"
  by (auto simp: sock_send_def rx_size_def split: list.splits tx_event.splits)

lemma reply_Normal_size: "reply acts c w = Normal c' acts' w' \<Longrightarrow> rx_size w' = rx_size w"
  by (auto simp: reply_def dest: sock_send_Sent_size split: sum.splits send_result.splits)

lemma receive_message_Normal_size:
  "receive_message U addr acts n w = Normal c acts' w' \<Longrightarrow> rx_size w' \<le> rx_size w"
  by (auto simp: receive_message_def dest!: recv_Returns_size reply_Normal_size
      split: recv_result.splits sum.splits if_splits)

lemma decode_header_Some: "decode_header U b = Inr (Some n) \<Longrightarrow> b \<noteq> []"
  by (auto simp: decode_header_def)

lemma try_body_True_size:
  "try_body U addr w = Normal True acts w' \<Longrightarrow> rx_size w' < rx_size w"
  by (auto simp: try_body_def
      dest!: recv_Returns_size receive_message_Normal_size decode_header_Some
      split: recv_result.splits sum.splits option.splits)

lemma iteration_True_size:
  "iteration U addr w = Normal True acts w' \<Longrightarrow> rx_size w' < rx_size w"
  by (auto simp: iteration_def dest: try_body_True_size split: result.splits)

text \<open>Lines 44 to 86: \<^verbatim>\<open>connected = True\<close>, then the loop.\<close>

function loop :: "interpreter \<Rightarrow> addr \<Rightarrow> world \<Rightarrow> unit result" where
  "loop U addr w =
     (case iteration U addr w of
        Block acts \<Rightarrow> Block acts
      | Raise e acts w' \<Rightarrow> Raise e acts w'
      | Normal connected acts w' \<Rightarrow>
          if connected then prefix_acts acts (loop U addr w') else Normal () acts w')"
  by pat_completeness auto
termination
  by (relation "measure (\<lambda>(U, addr, w). rx_size w)") (auto dest: iteration_True_size)

declare loop.simps [simp del]

text \<open>Lines 38 to 92: the whole handler, with the cleanup after the loop.\<close>

definition handle_client :: "interpreter \<Rightarrow> addr \<Rightarrow> world \<Rightarrow> unit result" where
  "handle_client U addr w =
     prefix_acts [Print (NewConnection addr)]
       (case loop U addr w of
          Normal u acts w' \<Rightarrow> Normal () (acts @ [Print (Closing addr), Close]) w'
        | Raise e acts w' \<Rightarrow> Raise e acts w'
        | Block acts \<Rightarrow> Block acts)"

section \<open>The client: \<^verbatim>\<open>send\<close> and the interactive loop\<close>

text \<open>
  Lines 46 to 54 of \<^verbatim>\<open>send\<close>: the header \<^verbatim>\<open>send_length\<close> and the payload \<^verbatim>\<open>message\<close>.
  \<^verbatim>\<open>b' ' * k\<close> is empty when \<open>k\<close> is not positive.  Lists here have any length; the \<^verbatim>\<open>len\<close>
  of a \<^verbatim>\<open>bytes\<close> object is at most \<open>2 ^ 63 - 1\<close>, a number of 19 digits, so that in the
  program the pad count is 45 at least (\<open>frame_padded\<close> below).
\<close>

definition frame :: "str \<Rightarrow> exn + (bytes \<times> bytes)" where
  "frame msg =
     (case utf8_encode msg of
        Inl e \<Rightarrow> Inl e
      | Inr message \<Rightarrow>
          (let msg_length = length message in
           case utf8_encode (py_str msg_length) of
             Inl e \<Rightarrow> Inl e
           | Inr send_length \<Rightarrow>
               Inr (send_length @
                      replicate (nat (HEADER - int (length send_length))) (CHR '' ''),
                    message)))"

text \<open>Lines 57 to 63: send the header, send the message, wait for the reply, print it.\<close>

definition transmit :: "bytes \<Rightarrow> bytes \<Rightarrow> world \<Rightarrow> unit result" where
  "transmit send_length message w =
     (case sock_send send_length w of
        SendRaises e w1 \<Rightarrow> Raise e [Send send_length (Some e)] w1
      | Sent w1 \<Rightarrow>
          (case sock_send message w1 of
             SendRaises e w2 \<Rightarrow>
               Raise e [Send send_length None, Send message (Some e)] w2
           | Sent w2 \<Rightarrow>
               prefix_acts [Send send_length None, Send message None]
                 (case recv 2048 w2 of
                    Blocks \<Rightarrow> Block [RecvWait 2048]
                  | Raises e w3 \<Rightarrow> Raise e [Recv 2048 (Inl e)] w3
                  | Returns r w3 \<Rightarrow>
                      (case utf8_decode r of
                         Inl e \<Rightarrow> Raise e [Recv 2048 (Inr r)] w3
                       | Inr server_response \<Rightarrow>
                           Normal () [Recv 2048 (Inr r), Print (Server server_response)]
                             w3))))"

text \<open>
  \<^verbatim>\<open>send(msg)\<close>, lines 38 to 69: the \<^verbatim>\<open>try\<close> body, and the one \<^verbatim>\<open>except\<close> clause, for
  \<^verbatim>\<open>ConnectionResetError\<close> and \<^verbatim>\<open>BrokenPipeError\<close>.  Any other exception leaves \<^verbatim>\<open>send\<close>.
\<close>

definition send :: "str \<Rightarrow> world \<Rightarrow> bool result" where
  "send msg w =
     (case (case frame msg of
              Inl e \<Rightarrow> Raise e [] w
            | Inr (send_length, message) \<Rightarrow> transmit send_length message w) of
        Normal u acts w' \<Rightarrow> Normal True acts w'
      | Block acts \<Rightarrow> Block acts
      | Raise e acts w' \<Rightarrow>
          if e = ConnectionResetError \<or> e = BrokenPipeError then
            Normal False (acts @ [Print ErrorLost]) w'
          else Raise e acts w')"

text \<open>
  The operator: what successive \<^verbatim>\<open>input("> ")\<close> calls give.  \<open>Line s\<close> is a typed line,
  \<open>InputFails e\<close> a call that raises (\<^verbatim>\<open>EOFError\<close> at the end of the input).  When the
  script is exhausted nothing is typed any more and \<^verbatim>\<open>input\<close> does not return.
\<close>

datatype stdin_event = Line str | InputFails exn

text \<open>
  Lines 78 to 91, the \<^verbatim>\<open>while True\<close> loop.  It ends normally by one of its two \<^verbatim>\<open>break\<close>
  statements; an exception that nothing handles leaves it.
\<close>

fun main_loop :: "stdin_event list \<Rightarrow> world \<Rightarrow> unit result" where
  "main_loop [] w = Block [InputWait]"
| "main_loop (InputFails e # ins) w = Raise e [Input (Inl e)] w"
| "main_loop (Line message # ins) w =
     prefix_acts [Input (Inr message)]
       (if message \<noteq> [] then
          (case send message w of
             Block acts \<Rightarrow> Block acts
           | Raise e acts w' \<Rightarrow> Raise e acts w'
           | Normal ok acts w' \<Rightarrow>
               if \<not> ok then Normal () acts w'
               else if message = MSG_DISCONNECT then Normal () acts w'
               else prefix_acts acts (main_loop ins w'))
        else main_loop ins w)"

text \<open>
  Lines 75 to 98, the script after the connection is made: the banner, the loop, the
  cleanup.  A \<open>Raise\<close> here is an exception that reaches the top level: the interpreter
  prints a traceback and the script stops where it is.
\<close>

definition client_main :: "stdin_event list \<Rightarrow> world \<Rightarrow> unit result" where
  "client_main ins w =
     prefix_acts [Print Banner]
       (case main_loop ins w of
          Normal u acts w' \<Rightarrow> Normal () (acts @ [Print ClosingClient, Close]) w'
        | Raise e acts w' \<Rightarrow> Raise e acts w'
        | Block acts \<Rightarrow> Block acts)"

section \<open>Notions used to state the properties\<close>

text \<open>
  The first \<open>k\<close> passes of the handler's loop from the state \<open>w\<close>, when each of them
  leaves \<^verbatim>\<open>connected\<close> true: what they did and the state at the top of the next pass.
\<close>

fun passes ::
  "interpreter \<Rightarrow> addr \<Rightarrow> nat \<Rightarrow> world \<Rightarrow> (action list \<times> world) option" where
  "passes U addr 0 w = Some ([], w)"
| "passes U addr (Suc k) w =
     (case iteration U addr w of
        Normal connected acts w' \<Rightarrow>
          if connected then
            (case passes U addr k w' of
               None \<Rightarrow> None
             | Some (rest, w'') \<Rightarrow> Some (acts @ rest, w''))
          else None
      | Raise e acts w' \<Rightarrow> None
      | Block acts \<Rightarrow> None)"

text \<open>The sizes of the \<^verbatim>\<open>recv\<close> calls of a run, in order.\<close>

fun recv_calls :: "action list \<Rightarrow> int list" where
  "recv_calls [] = []"
| "recv_calls (Recv n r # xs) = n # recv_calls xs"
| "recv_calls (RecvWait n # xs) = n # recv_calls xs"
| "recv_calls (x # xs) = recv_calls xs"


text \<open>
  The header as the specification words it: decimal digits, at least one, then only the
  space padding; and the number they denote.
\<close>

definition spec_decimal :: "str \<Rightarrow> bool" where
  "spec_decimal s =
     (takeWhile is_digit s \<noteq> [] \<and> list_all (\<lambda>c. c = 0x20) (dropWhile is_digit s))"

definition spec_value :: "str \<Rightarrow> nat" where
  "spec_value s = foldl (\<lambda>a c. 10 * a + (c - 0x30)) 0 (takeWhile is_digit s)"

text \<open>
  The literals that \<^verbatim>\<open>int\<close> takes, as a grammar over ASCII text.  A digit part is one
  digit or more, where a single underscore may stand between two digits.  A literal is
  white space, then a sign \<^verbatim>\<open>+\<close> or \<^verbatim>\<open>-\<close> or none, then a digit part that runs up to the
  next white space, then nothing but white space.  Its value is the number that its
  digits denote, negated under the sign \<^verbatim>\<open>-\<close>.
\<close>

fun digitpart :: "str \<Rightarrow> bool" where
  "digitpart [] = False"
| "digitpart [c] = is_digit c"
| "digitpart (c # d # r) =
     (is_digit c \<and> (if d = 0x5F then digitpart r else digitpart (d # r)))"

definition int_literal :: "str \<Rightarrow> bool" where
  "int_literal s =
     (let s1 = dropWhile Py_ISSPACE s;
          s2 = (if s1 \<noteq> [] \<and> (hd s1 = 0x2B \<or> hd s1 = 0x2D) then tl s1 else s1)
      in digitpart (takeWhile (\<lambda>c. \<not> Py_ISSPACE c) s2) \<and>
         list_all Py_ISSPACE (dropWhile (\<lambda>c. \<not> Py_ISSPACE c) s2))"

definition literal_value :: "str \<Rightarrow> int" where
  "literal_value s =
     (let s1 = dropWhile Py_ISSPACE s;
          sign = (if s1 \<noteq> [] \<and> hd s1 = 0x2D then - 1 else (1 :: int))
      in sign * int (foldl (\<lambda>a c. 10 * a + (c - 0x30)) 0 (filter is_digit s)))"

text \<open>
  For evaluating examples: the Unicode database restricted to code points below 256
  (two white-space characters above ASCII, no decimal digit above ASCII), and a
  standard output in Latin-1, which encodes just these code points.
\<close>

definition latin1_db :: interpreter where
  "latin1_db =
     \<lparr>Py_UNICODE_ISSPACE = (\<lambda>c. c = 0x85 \<or> c = 0xA0),
      Py_UNICODE_TODECIMAL = (\<lambda>c. None),
      stdout_encodes = (\<lambda>c. c < 256)\<rparr>"

text \<open>A peer address for the examples.\<close>

definition peer :: addr where
  "peer = (''127.0.0.1'', 50000)"

section \<open>Facts about the codec\<close>

lemma py_str_digits: "c \<in> set (py_str n) \<Longrightarrow> is_digit c"
proof (induction n arbitrary: c rule: py_str.induct)
  case (1 n)
  show ?case
  proof (cases "n < 10")
    case True
    with "1.prems" show ?thesis by (simp add: py_str.simps [of n] is_digit_def)
  next
    case False
    with "1.prems" "1.IH" show ?thesis
      by (auto simp add: py_str.simps [of n] is_digit_def)
  qed
qed

lemma py_str_nonempty: "py_str n \<noteq> []"
  by (subst py_str.simps) simp

lemma py_str_lt: "c \<in> set (py_str n) \<Longrightarrow> c < 127"
  by (drule py_str_digits) (simp add: is_digit_def)

lemma scan_digits:
  "\<forall>c \<in> set ds. is_digit c \<Longrightarrow>
   scan prev digits v (ds @ r) =
     scan (if ds = [] then prev else last ds) (digits + length ds)
       (foldl (\<lambda>a c. 10 * a + (c - 0x30)) v ds) r"
proof (induction ds arbitrary: prev digits v)
  case Nil
  then show ?case by simp
next
  case (Cons d ds)
  then have d: "is_digit d" and "d \<noteq> 0x5F" by (auto simp: is_digit_def)
  with Cons show ?case by simp
qed

lemma foldl_py_str:
  "foldl (\<lambda>a c. 10 * a + (c - 0x30)) v (py_str n) = v * 10 ^ length (py_str n) + n"
proof (induction n arbitrary: v rule: py_str.induct)
  case (1 n)
  show ?case
  proof (cases "n < 10")
    case True
    then show ?thesis by (simp add: py_str.simps [of n])
  next
    case False
    then show ?thesis
      using "1.IH" [OF False, of v]
      by (simp add: py_str.simps [of n] algebra_simps)
  qed
qed

lemma scan_stop:
  "\<forall>c \<in> set r. Py_ISSPACE c \<Longrightarrow> scan prev digits v r = Some (prev, digits, v, r)"
  by (cases r) (auto simp: Py_ISSPACE_def is_digit_def)

lemma dropWhile_digits:
  "ds \<noteq> [] \<Longrightarrow> \<forall>c \<in> set ds. is_digit c \<Longrightarrow> dropWhile Py_ISSPACE (ds @ r) = ds @ r"
  by (cases ds) (auto simp: Py_ISSPACE_def is_digit_def)

lemma PyLong_FromString_digits:
  assumes "ds \<noteq> []" and dg: "\<forall>c \<in> set ds. is_digit c" and "\<forall>c \<in> set r. Py_ISSPACE c"
  shows "PyLong_FromString (ds @ r) = Some (int (foldl (\<lambda>a c. 10 * a + (c - 0x30)) 0 ds))"
proof -
  have hd: "is_digit (hd ds)" using assms(1) dg by (cases ds) auto
  have lst: "is_digit (last ds)" using assms(1) dg by simp
  have s1: "dropWhile Py_ISSPACE (ds @ r) = ds @ r"
    using assms(1) dg by (rule dropWhile_digits)
  have hd': "hd (ds @ r) = hd ds" using assms(1) by simp
  have sc: "scan 0 0 0 (ds @ r) =
      Some (last ds, length ds, foldl (\<lambda>a c. 10 * a + (c - 0x30)) 0 ds, r)"
    using scan_digits [OF dg, of 0 0 0 r] assms(1,3) by (simp add: scan_stop)
  have dr: "dropWhile Py_ISSPACE r = []" using assms(3) by simp
  have len: "length ds \<noteq> 0" using assms(1) by simp
  show ?thesis
    unfolding PyLong_FromString_def Let_def s1 hd'
    using hd lst assms(1) sc dr len
    by (auto simp: is_digit_def)
qed

lemma PyLong_FromString_py_str:
  assumes "\<forall>c \<in> set r. Py_ISSPACE c"
  shows "PyLong_FromString (py_str n @ r) = Some (int n)"
proof -
  let ?ds = "py_str n"
  have ne: "?ds \<noteq> []" by (rule py_str_nonempty)
  have dg: "\<forall>c \<in> set ?ds. is_digit c" by (simp add: py_str_digits)
  have hd: "is_digit (hd ?ds)" using ne dg by (cases ?ds) auto
  have lst: "is_digit (last ?ds)" using ne dg by simp
  have s1: "dropWhile Py_ISSPACE (?ds @ r) = ?ds @ r"
    using ne dg by (rule dropWhile_digits)
  have hd': "hd (?ds @ r) = hd ?ds" using ne by simp
  have sc: "scan 0 0 0 (?ds @ r) = Some (last ?ds, length ?ds, n, r)"
    using scan_digits [OF dg, of 0 0 0 r] ne assms
    by (simp add: foldl_py_str scan_stop)
  have dr: "dropWhile Py_ISSPACE r = []" using assms by simp
  have len: "length ?ds \<noteq> 0" using ne by simp
  show ?thesis
    unfolding PyLong_FromString_def Let_def s1 hd'
    using hd lst ne sc dr len
    by (auto simp: is_digit_def)
qed

lemma transform_ascii: "\<forall>c \<in> set s. c < 127 \<Longrightarrow> transform_to_ascii U s = Some s"
  by (induction s) auto

lemma py_int_py_str:
  "py_int U (py_str n @ replicate k 0x20) = Inr (int n)"
proof -
  have "\<forall>c \<in> set (py_str n @ replicate k 0x20). c < 127"
    by (auto dest: py_str_lt)
  then have "transform_to_ascii U (py_str n @ replicate k 0x20) = Some (py_str n @ replicate k 0x20)"
    by (rule transform_ascii)
  moreover have "PyLong_FromString (py_str n @ replicate k 0x20) = Some (int n)"
    by (rule PyLong_FromString_py_str) (simp add: Py_ISSPACE_def)
  ultimately show ?thesis by (simp add: py_int_def)
qed

lemma py_int_spec_decimal:
  assumes "spec_decimal h"
  shows "py_int U h = Inr (int (spec_value h))"
proof -
  let ?ds = "takeWhile is_digit h" and ?r = "dropWhile is_digit h"
  have h: "h = ?ds @ ?r" by simp
  have ne: "?ds \<noteq> []" using assms by (simp add: spec_decimal_def)
  have dg: "\<forall>c \<in> set ?ds. is_digit c" by (auto dest: set_takeWhileD)
  have sp: "\<forall>c \<in> set ?r. c = 0x20" using assms by (simp add: spec_decimal_def list_all_iff)
  then have sp': "\<forall>c \<in> set ?r. Py_ISSPACE c" by (simp add: Py_ISSPACE_def)
  have "\<forall>c \<in> set (?ds @ ?r). c < 127"
    using dg sp unfolding set_append by (auto simp: is_digit_def)
  then have "transform_to_ascii U h = Some h" using transform_ascii [of h U] by simp
  moreover have "PyLong_FromString (?ds @ ?r) = Some (int (spec_value h))"
    unfolding spec_value_def by (rule PyLong_FromString_digits [OF ne dg sp'])
  ultimately show ?thesis by (simp add: py_int_def)
qed

lemma spec_decimal_nonempty: "spec_decimal h \<Longrightarrow> h \<noteq> []"
  by (auto simp: spec_decimal_def)

lemma py_int_Inl: "py_int U s = Inl e \<Longrightarrow> e = ValueError"
  by (auto simp: py_int_def split: option.splits)

lemma utf8_encode_ascii:
  "\<forall>c \<in> set s. c < 0x80 \<Longrightarrow> utf8_encode s = Inr (map char_of s)"
  by (induction s) (auto simp: encode_cp_def)

lemma utf8_encode_py_str: "utf8_encode (py_str n) = Inr (map char_of (py_str n))"
  by (rule utf8_encode_ascii) (auto dest: py_str_lt)

lemma encode_cp_nonempty: "encode_cp c = Inr b \<Longrightarrow> b \<noteq> []"
  by (auto simp: encode_cp_def split: if_splits)

lemma utf8_encode_nonempty: "utf8_encode msg = Inr m \<Longrightarrow> msg \<noteq> [] \<Longrightarrow> m \<noteq> []"
  by (cases msg) (auto dest: encode_cp_nonempty split: sum.splits)

lemma utf8_decode_ascii:
  "\<forall>b \<in> set bs. (of_char b :: nat) < 0x80 \<Longrightarrow> utf8_decode bs = Inr (map of_char bs)"
  by (induction bs) (auto simp: prepend_def Let_def)

lemma utf8_decode_header:
  "utf8_decode (map char_of (py_str n) @ replicate k (CHR '' '')) = Inr (py_str n @ replicate k 0x20)"
proof -
  have d: "\<forall>c \<in> set (py_str n). c < 0x80"
    by (auto dest: py_str_lt)
  have "\<forall>b \<in> set (map char_of (py_str n) @ replicate k (CHR '' '')). (of_char b :: nat) < 0x80"
    using d by auto
  then have "utf8_decode (map char_of (py_str n) @ replicate k (CHR '' ''))
      = Inr (map of_char (map char_of (py_str n) @ replicate k (CHR '' '')))"
    by (rule utf8_decode_ascii)
  moreover have "map of_char (map char_of (py_str n)) = py_str n"
    using d by (auto intro!: map_idI)
  ultimately show ?thesis by simp
qed

lemma prepend_Inl_iff: "prepend c r = Inl e \<longleftrightarrow> r = Inl e"
  by (cases r) (simp_all add: prepend_def)

lemma utf8_decode_Inl: "utf8_decode b = Inl e \<Longrightarrow> e = UnicodeDecodeError"
proof (induction b rule: utf8_decode.induct)
  case 1
  then show ?case by simp
next
  case (2 b bs)
  let ?v = "of_char b :: nat"
  consider (a) "?v < 0x80" | (b) "\<not> ?v < 0x80" "0xC2 \<le> ?v \<and> ?v \<le> 0xDF"
    | (c) "\<not> ?v < 0x80" "\<not> (0xC2 \<le> ?v \<and> ?v \<le> 0xDF)" "0xE0 \<le> ?v \<and> ?v \<le> 0xEF"
    | (d) "\<not> ?v < 0x80" "\<not> (0xC2 \<le> ?v \<and> ?v \<le> 0xDF)" "\<not> (0xE0 \<le> ?v \<and> ?v \<le> 0xEF)"
         "0xF0 \<le> ?v \<and> ?v \<le> 0xF4"
    | (e) "\<not> ?v < 0x80" "\<not> (0xC2 \<le> ?v \<and> ?v \<le> 0xDF)" "\<not> (0xE0 \<le> ?v \<and> ?v \<le> 0xEF)"
         "\<not> (0xF0 \<le> ?v \<and> ?v \<le> 0xF4)"
    by blast
  then show ?case
  proof cases
    case a
    with "2.prems" "2.IH"(1) show ?thesis by (simp add: Let_def prepend_Inl_iff)
  next
    case b
    show ?thesis
    proof (cases bs)
      case Nil
      with b "2.prems" show ?thesis by (simp add: Let_def prepend_Inl_iff)
    next
      case (Cons b1 r)
      with b "2.prems" "2.IH"(2) [OF refl b(1,2) Cons] show ?thesis
        by (simp add: Let_def prepend_Inl_iff split: if_splits)
    qed
  next
    case c
    show ?thesis
    proof (cases bs)
      case Nil
      with c "2.prems" show ?thesis by (simp add: Let_def prepend_Inl_iff)
    next
      case (Cons b1 r1)
      show ?thesis
      proof (cases r1)
        case Nil
        with c Cons "2.prems" show ?thesis by (simp add: Let_def prepend_Inl_iff)
      next
        case (Cons b2 r)
        with c \<open>bs = b1 # r1\<close> "2.prems" "2.IH"(3) [OF refl c(1,2,3) \<open>bs = b1 # r1\<close> Cons refl]
        show ?thesis by (simp add: Let_def prepend_Inl_iff split: if_splits)
      qed
    qed
  next
    case d
    show ?thesis
    proof (cases bs)
      case Nil
      with d "2.prems" show ?thesis by (simp add: Let_def prepend_Inl_iff)
    next
      case (Cons b1 r1)
      show ?thesis
      proof (cases r1)
        case Nil
        with d Cons "2.prems" show ?thesis by (simp add: Let_def prepend_Inl_iff)
      next
        case (Cons b2 r2)
        show ?thesis
        proof (cases r2)
          case Nil
          with d \<open>bs = b1 # r1\<close> Cons "2.prems" show ?thesis by (simp add: Let_def prepend_Inl_iff)
        next
          case (Cons b3 r)
          with d \<open>bs = b1 # r1\<close> \<open>r1 = b2 # r2\<close> "2.prems"
            "2.IH"(4) [OF refl d(1,2,3,4) \<open>bs = b1 # r1\<close> \<open>r1 = b2 # r2\<close> Cons refl]
          show ?thesis by (simp add: Let_def prepend_Inl_iff split: if_splits)
        qed
      qed
    qed
  next
    case e
    with "2.prems" show ?thesis by (simp add: Let_def prepend_Inl_iff)
  qed
qed

lemma decode_header_Inl:
  assumes "decode_header U b = Inl e"
  shows "isinstance_ValueError e"
proof (cases "utf8_decode b")
  case (Inl e')
  with assms have "e = e'" by (simp add: decode_header_def)
  with utf8_decode_Inl [OF Inl] show ?thesis by (simp add: isinstance_ValueError_def)
next
  case (Inr h)
  with assms have "py_int U h = Inl e"
    by (simp add: decode_header_def split: if_splits sum.splits)
  from py_int_Inl [OF this] show ?thesis by (simp add: isinstance_ValueError_def)
qed

lemma decode_header_frame:
  assumes "length (py_str n) \<le> 64"
  shows "decode_header U (map char_of (py_str n) @ replicate (64 - length (py_str n)) (CHR '' ''))
           = Inr (Some (int n))"
  using py_str_nonempty [of n]
  by (simp add: decode_header_def utf8_decode_header py_int_py_str)

lemma frame_eq:
  "utf8_encode msg = Inr message \<Longrightarrow>
   frame msg = Inr (map char_of (py_str (length message)) @
                    replicate (64 - length (py_str (length message))) (CHR '' ''), message)"
  by (simp add: frame_def Let_def utf8_encode_py_str HEADER_def nat_diff_distrib')

lemma frame_Inr:
  assumes "frame msg = Inr (h, m)"
  shows "utf8_encode msg = Inr m \<and>
         h = map char_of (py_str (length m)) @
             replicate (64 - length (py_str (length m))) (CHR '' '')"
proof (cases "utf8_encode msg")
  case (Inl e)
  with assms show ?thesis by (simp add: frame_def)
next
  case (Inr m')
  from frame_eq [OF Inr] assms show ?thesis by (simp add: Inr)
qed

lemma digitpart_ends: "digitpart b \<Longrightarrow> b \<noteq> [] \<and> is_digit (hd b) \<and> is_digit (last b)"
  by (induction b rule: digitpart.induct) (auto split: if_splits)

lemma space_not_digit: "Py_ISSPACE c \<Longrightarrow> \<not> is_digit c \<and> c \<noteq> 0x5F \<and> c \<noteq> 0x2B \<and> c \<noteq> 0x2D"
  by (auto simp: Py_ISSPACE_def is_digit_def)

lemma digit_not_underscore: "is_digit c \<Longrightarrow> c \<noteq> 0x5F"
  by (auto simp: is_digit_def)

lemma scan_rest:
  "r = [] \<or> Py_ISSPACE (hd r) \<Longrightarrow> scan p d v r = Some (p, d, v, r)"
  by (cases r) (auto dest: space_not_digit)

lemma scan_digitpart:
  "digitpart b \<Longrightarrow> r = [] \<or> Py_ISSPACE (hd r) \<Longrightarrow>
   scan p d v (b @ r) =
     Some (last b, d + length (filter is_digit b),
           foldl (\<lambda>a c. 10 * a + (c - 0x30)) v (filter is_digit b), r)"
proof (induction b arbitrary: p d v rule: digitpart.induct)
  case 1
  then show ?case by simp
next
  case (2 c)
  then have c: "is_digit c" "c \<noteq> 0x5F" by (auto dest: digit_not_underscore)
  with scan_rest [OF "2.prems"(2)] show ?case by simp
next
  case (3 c e r0)
  then have c: "is_digit c" "c \<noteq> 0x5F" by (auto dest: digit_not_underscore)
  show ?case
  proof (cases "e = 0x5F")
    case True
    with "3.prems" have dp: "digitpart r0" by simp
    then have ne: "r0 \<noteq> []" by (auto dest: digitpart_ends)
    have e: "\<not> is_digit e" using True by (simp add: is_digit_def)
    from "3.IH"(1) [OF True dp "3.prems"(2)] c True e ne show ?thesis by simp
  next
    case False
    with "3.prems" have dp: "digitpart (e # r0)" by simp
    from "3.IH"(2) [OF False dp "3.prems"(2)] c show ?thesis by simp
  qed
qed

lemma scan_accepts:
  assumes "scan p d v (b @ r) = Some (p', d', v', rest)"
    and "list_all Py_ISSPACE rest" and "p' \<noteq> 0x5F"
    and "\<forall>c \<in> set b. \<not> Py_ISSPACE c" and "r = [] \<or> Py_ISSPACE (hd r)"
  shows "rest = r \<and>
         (b = [] \<and> d' = d \<or> b \<noteq> [] \<and> hd b = 0x5F \<and> digitpart (tl b) \<or> digitpart b)"
  using assms(1,4)
proof (induction b arbitrary: p d v)
  case Nil
  with scan_rest [OF assms(5), of p d v] show ?case by simp
next
  case (Cons c b')
  have nws: "\<forall>c \<in> set b'. \<not> Py_ISSPACE c" and cn: "\<not> Py_ISSPACE c" using Cons.prems(2) by simp_all
  consider (us) "c = 0x5F" | (dg) "c \<noteq> 0x5F" "is_digit c" | (other) "c \<noteq> 0x5F" "\<not> is_digit c"
    by blast
  then show ?case
  proof cases
    case us
    with Cons.prems(1) have p: "p \<noteq> 0x5F" and
      sc: "scan 0x5F d v (b' @ r) = Some (p', d', v', rest)"
      by (auto split: if_splits)
    from Cons.IH [OF sc nws] have rr: "rest = r" and
      alt: "b' = [] \<and> d' = d \<or> b' \<noteq> [] \<and> hd b' = 0x5F \<and> digitpart (tl b') \<or> digitpart b'"
      by simp_all
    have "digitpart b'"
    proof (cases b')
      case Nil
      with sc scan_rest [OF assms(5), of "0x5F" d v] assms(3) show ?thesis by simp
    next
      case (Cons e r0)
      show ?thesis
      proof (cases "e = 0x5F")
        case True
        with sc Cons show ?thesis by simp
      next
        case False
        with alt Cons show ?thesis by simp
      qed
    qed
    with rr us show ?thesis by simp
  next
    case dg
    with Cons.prems(1) have
      sc: "scan c (d + 1) (10 * v + (c - 0x30)) (b' @ r) = Some (p', d', v', rest)"
      by simp
    from Cons.IH [OF sc nws] have rr: "rest = r" and
      alt: "b' = [] \<and> d' = d + 1 \<or> b' \<noteq> [] \<and> hd b' = 0x5F \<and> digitpart (tl b') \<or> digitpart b'"
      by simp_all
    have "digitpart (c # b')"
    proof (cases b')
      case Nil
      with dg show ?thesis by simp
    next
      case (Cons e r0)
      show ?thesis
      proof (cases "e = 0x5F")
        case True
        with alt Cons have "digitpart r0" by (auto simp: is_digit_def dest: digitpart_ends)
        with dg Cons True show ?thesis by simp
      next
        case False
        with alt Cons have "digitpart (e # r0)" by simp
        with dg Cons False show ?thesis by simp
      qed
    qed
    with rr show ?thesis by simp
  next
    case other
    with Cons.prems(1) have "rest = c # b' @ r" by simp
    with assms(2) cn show ?thesis by simp
  qed
qed

lemma filter_digit_spaces: "list_all Py_ISSPACE r \<Longrightarrow> filter is_digit r = []"
  by (induction r) (auto dest: space_not_digit)

lemma PyLong_FromString_literal:
  "PyLong_FromString s = (if int_literal s then Some (literal_value s) else None)"
proof -
  define s1 where "s1 = dropWhile Py_ISSPACE s"
  define s2 where "s2 = (if s1 \<noteq> [] \<and> (hd s1 = 0x2B \<or> hd s1 = 0x2D) then tl s1 else s1)"
  define sign where "sign = (if s1 \<noteq> [] \<and> hd s1 = 0x2D then - 1 else (1 :: int))"
  define b where "b = takeWhile (\<lambda>c. \<not> Py_ISSPACE c) s2"
  define r where "r = dropWhile (\<lambda>c. \<not> Py_ISSPACE c) s2"
  let ?f = "\<lambda>a c. 10 * a + (c - 0x30)"
  have s2: "s2 = b @ r" by (simp add: b_def r_def)
  have nws: "\<forall>c \<in> set b. \<not> Py_ISSPACE c" unfolding b_def by (auto dest: set_takeWhileD)
  have rc: "r = [] \<or> Py_ISSPACE (hd r)"
    unfolding r_def using hd_dropWhile [of "\<lambda>c. \<not> Py_ISSPACE c" s2] by auto
  have lit: "int_literal s \<longleftrightarrow> digitpart b \<and> list_all Py_ISSPACE r"
    unfolding int_literal_def Let_def b_def r_def s2_def s1_def by (rule refl)
  have val: "literal_value s = sign * int (foldl ?f 0 (filter is_digit s))"
    unfolding literal_value_def Let_def sign_def s1_def by (rule refl)
  have code: "PyLong_FromString s =
      (if s2 \<noteq> [] \<and> hd s2 = 0x5F then None
       else (case scan 0 0 0 s2 of
               None \<Rightarrow> None
             | Some (prev, digits, v, rest) \<Rightarrow>
                 if prev = 0x5F \<or> digits = 0 then None
                 else if dropWhile Py_ISSPACE rest \<noteq> [] then None
                 else Some (sign * int v)))"
    unfolding PyLong_FromString_def Let_def s2_def sign_def s1_def by (rule refl)
  show ?thesis
  proof (cases "digitpart b \<and> list_all Py_ISSPACE r")
    case True
    then have dp: "digitpart b" and sp: "list_all Py_ISSPACE r" by simp_all
    from digitpart_ends [OF dp] have ne: "b \<noteq> []" and hd: "is_digit (hd b)"
      and lst: "is_digit (last b)" by simp_all
    have h2: "s2 \<noteq> []" "hd s2 \<noteq> 0x5F" using ne hd by (auto simp: s2 dest: digit_not_underscore)
    have cnt: "length (filter is_digit b) \<noteq> 0"
      using ne hd by (cases b) auto
    have dr: "dropWhile Py_ISSPACE r = []" using sp by (simp add: list_all_iff)
    have f1: "filter is_digit s = filter is_digit s1"
    proof -
      have "s = takeWhile Py_ISSPACE s @ s1" by (simp add: s1_def)
      then have "filter is_digit s = filter is_digit (takeWhile Py_ISSPACE s) @ filter is_digit s1"
        by (metis filter_append)
      moreover have "filter is_digit (takeWhile Py_ISSPACE s) = []"
        by (rule filter_digit_spaces) (auto simp: list_all_iff dest: set_takeWhileD)
      ultimately show ?thesis by simp
    qed
    have f2: "filter is_digit s1 = filter is_digit s2"
      unfolding s2_def by (cases s1) (auto simp: is_digit_def)
    have f3: "filter is_digit s2 = filter is_digit b"
      by (simp add: s2 filter_digit_spaces [OF sp])
    have "PyLong_FromString s = Some (sign * int (foldl ?f 0 (filter is_digit b)))"
      unfolding code s2 [symmetric]
      using h2 scan_digitpart [OF dp rc, of 0 0 0] lst cnt dr
      by (auto simp: s2 [symmetric] dest: digit_not_underscore)
    with True lit val f1 f2 f3 show ?thesis by simp
  next
    case False
    have "PyLong_FromString s = None"
    proof (rule ccontr)
      assume "PyLong_FromString s \<noteq> None"
      then obtain prev digits v rest where
        h2: "\<not> (s2 \<noteq> [] \<and> hd s2 = 0x5F)" and
        sc: "scan 0 0 0 (b @ r) = Some (prev, digits, v, rest)" and
        pv: "prev \<noteq> 0x5F" and dg: "digits \<noteq> 0" and
        dr: "dropWhile Py_ISSPACE rest = []"
        unfolding code s2 by (auto split: if_splits option.splits)
      have sp: "list_all Py_ISSPACE rest"
        using dr by (simp add: list_all_iff dropWhile_eq_Nil_conv)
      from scan_accepts [OF sc sp pv nws rc] dg have rr: "rest = r" and
        alt: "b \<noteq> [] \<and> hd b = 0x5F \<and> digitpart (tl b) \<or> digitpart b" by auto
      from alt h2 have "digitpart b" by (auto simp: s2)
      with sp rr False show False by simp
    qed
    with False lit show ?thesis by simp
  qed
qed

lemma py_int_literal:
  "py_int U s =
     (case transform_to_ascii U s of
        None \<Rightarrow> Inl ValueError
      | Some a \<Rightarrow> if int_literal a then Inr (literal_value a) else Inl ValueError)"
  by (simp add: py_int_def PyLong_FromString_literal split: option.splits)

text \<open>
  The decimal form of a number below \<open>10 ^ k\<close> has at most \<open>k\<close> digits; so the length of
  a \<^verbatim>\<open>bytes\<close> object, which is at most \<open>2 ^ 63 - 1\<close>, has at most 19, and the header that
  \<^verbatim>\<open>send\<close> builds for it is padded to exactly 64 bytes.
\<close>

lemma py_str_length: "0 < k \<Longrightarrow> n < 10 ^ k \<Longrightarrow> length (py_str n) \<le> k"
proof (induction n arbitrary: k rule: py_str.induct)
  case (1 n)
  show ?case
  proof (cases "n < 10")
    case True
    with "1.prems" show ?thesis by (simp add: py_str.simps [of n])
  next
    case False
    from "1.prems" obtain j where k: "k = Suc j" by (cases k) auto
    have j: "0 < j"
    proof (rule ccontr)
      assume "\<not> 0 < j"
      with k "1.prems" False show False by simp
    qed
    have "n div 10 < 10 ^ j" using "1.prems"(2) k by (simp add: less_mult_imp_div_less)
    from "1.IH" [OF False j this] False k show ?thesis by (simp add: py_str.simps [of n])
  qed
qed

lemma frame_padded:
  assumes "utf8_encode msg = Inr message"
    and "int (length message) \<le> PY_SSIZE_T_MAX"
  shows "length (py_str (length message)) \<le> 19 \<and>
         (\<exists>pad. 45 \<le> pad \<and>
            frame msg =
              Inr (map char_of (py_str (length message)) @ replicate pad (CHR '' ''), message) \<and>
            length (map char_of (py_str (length message)) @ replicate pad (CHR '' '')) = 64)"
proof -
  have "length message < 10 ^ 19" using assms(2) by (simp add: PY_SSIZE_T_MAX_def)
  then have l: "length (py_str (length message)) \<le> 19" by (intro py_str_length) simp_all
  with frame_eq [OF assms(1)] show ?thesis by simp
qed

text \<open>Decoding undoes encoding.\<close>

lemma mod64_add: "(0x80 + (x::nat) mod 64) mod 64 = x mod 64"
proof -
  have "(0x80 + x mod 64) mod 64 = (x mod 64 + 64 * 2) mod 64" by (simp add: add.commute)
  also have "\<dots> = x mod 64 mod 64" by (rule mod_mult_self2)
  finally show ?thesis by simp
qed

lemma low6_add: "(0x80 + (x::nat) mod 64) mod 64 = x mod 64" "0x80 + (x::nat) mod 64 < 256"
  "0x80 \<le> 0x80 + (x::nat) mod 64" "0x80 + (x::nat) mod 64 \<le> 0xBF"
  using mod64_add [of x] by simp_all

lemma split2: "(c::nat) div 64 * 64 + c mod 64 = c"
  by simp

lemma split3: "(c::nat) div 4096 * 4096 + c div 64 mod 64 * 64 + c mod 64 = c"
proof -
  have "c div 64 = (c div 64) div 64 * 64 + c div 64 mod 64" by simp
  moreover have "(c div 64) div 64 = c div 4096" by (simp add: div_mult2_eq [symmetric])
  ultimately have "c div 64 = c div 4096 * 64 + c div 64 mod 64" by simp
  then have "c div 64 * 64 = c div 4096 * 4096 + c div 64 mod 64 * 64" by simp
  moreover have "c = c div 64 * 64 + c mod 64" by simp
  ultimately show ?thesis by linarith
qed

lemma split4:
  "(c::nat) div 262144 * 262144 + c div 4096 mod 64 * 4096 + c div 64 mod 64 * 64 + c mod 64 = c"
proof -
  have "c div 4096 = (c div 4096) div 64 * 64 + c div 4096 mod 64" by simp
  moreover have "(c div 4096) div 64 = c div 262144" by (simp add: div_mult2_eq [symmetric])
  ultimately have "c div 4096 = c div 262144 * 64 + c div 4096 mod 64" by simp
  then have "c div 4096 * 4096 = c div 262144 * 262144 + c div 4096 mod 64 * 4096" by simp
  with split3 [of c] show ?thesis by linarith
qed

lemma cp_bounds: "(c::nat) < 0x800 \<Longrightarrow> c div 64 < 32" "0x80 \<le> c \<Longrightarrow> 2 \<le> c div 64"
  "c < 0x10000 \<Longrightarrow> c div 4096 < 16" "c < 0x110000 \<Longrightarrow> c div 262144 < 5"
  by simp_all


lemma of_char_cont:
  "(of_char (char_of (0x80 + (x::nat) mod 64)) :: nat) = 0x80 + x mod 64"
  using low6_add(2) [of x] by simp

lemma cont_char_of: "cont (char_of (0x80 + (x::nat) mod 64))"
  using low6_add(4) [of x] by (simp add: cont_def of_char_cont)

lemma low6_char_of: "low6 (char_of (0x80 + (x::nat) mod 64)) = x mod 64"
  by (simp add: low6_def of_char_cont low6_add(1))

lemma decode_encode_cp:
  assumes "c < 0x110000" and "encode_cp c = Inr b"
  shows "utf8_decode (b @ rest) = prepend c (utf8_decode rest)"
proof -
  consider (a) "c < 0x80" | (b) "0x80 \<le> c" "c < 0x800"
    | (c) "0x800 \<le> c" "c < 0x10000" "\<not> (0xD800 \<le> c \<and> c \<le> 0xDFFF)"
    | (d) "0x10000 \<le> c" | (s) "0xD800 \<le> c \<and> c \<le> 0xDFFF"
    by linarith
  then show ?thesis
  proof cases
    case a
    then have b: "b = [char_of c]" using assms(2) by (simp add: encode_cp_def)
    show ?thesis using a by (simp add: b Let_def)
  next
    case b
    then have bb: "b = [char_of (0xC0 + c div 64), char_of (0x80 + c mod 64)]"
      using assms(2) by (simp add: encode_cp_def)
    have d: "c div 64 < 32" "2 \<le> c div 64" using b by (simp_all add: cp_bounds)
    have v1: "(of_char (char_of (0xC0 + c div 64 :: nat)) :: nat) = 0xC0 + c div 64"
      using d by simp
    show ?thesis
      unfolding bb using d
      by (simp add: Let_def v1 cont_char_of low6_char_of split2 del: of_char_of)
  next
    case c
    then have bb: "b = [char_of (0xE0 + c div 4096), char_of (0x80 + c div 64 mod 64),
             char_of (0x80 + c mod 64)]"
      using assms(2) by (auto simp: encode_cp_def split: if_splits)
    have d: "c div 4096 < 16" using c by (simp add: cp_bounds)
    have v1: "(of_char (char_of (0xE0 + c div 4096 :: nat)) :: nat) = 0xE0 + c div 4096"
      using d by simp
    show ?thesis
      unfolding bb using c d
      by (simp add: Let_def v1 cont_char_of low6_char_of split3 del: of_char_of)
  next
    case d
    then have bb: "b = [char_of (0xF0 + c div 262144), char_of (0x80 + c div 4096 mod 64),
             char_of (0x80 + c div 64 mod 64), char_of (0x80 + c mod 64)]"
      using assms(2) by (auto simp: encode_cp_def split: if_splits)
    have dd: "c div 262144 < 5" using assms(1) by (simp add: cp_bounds)
    have v1: "(of_char (char_of (0xF0 + c div 262144 :: nat)) :: nat) = 0xF0 + c div 262144"
      using dd by simp
    show ?thesis
      unfolding bb using d dd assms(1)
      by (simp add: Let_def v1 cont_char_of low6_char_of split4 del: of_char_of)
  next
    case s
    then show ?thesis using assms(2) by (simp add: encode_cp_def)
  qed
qed

lemma utf8_roundtrip:
  "\<forall>c \<in> set s. c < 0x110000 \<Longrightarrow> utf8_encode s = Inr b \<Longrightarrow> utf8_decode b = Inr s"
proof (induction s arbitrary: b)
  case Nil
  then show ?case by simp
next
  case (Cons c cs)
  from Cons.prems(2) obtain b1 b2 where
    e1: "encode_cp c = Inr b1" and e2: "utf8_encode cs = Inr b2" and b: "b = b1 @ b2"
    by (auto split: sum.splits)
  from Cons.IH [OF _ e2] Cons.prems(1) have "utf8_decode b2 = Inr cs" by simp
  with decode_encode_cp [OF _ e1, of b2] Cons.prems(1) show ?case
    by (simp add: b prepend_def)
qed

section \<open>Facts about the handler\<close>

lemma prefix_acts_Nil [simp]: "prefix_acts [] r = r"
  by (cases r) (simp_all add: prefix_acts_def)

lemma prefix_acts_prefix_acts [simp]:
  "prefix_acts a (prefix_acts b r) = prefix_acts (a @ b) r"
  by (cases r) (simp_all add: prefix_acts_def)

lemma trace_prefix_acts [simp]: "trace (prefix_acts a r) = a @ trace r"
  by (cases r) (simp_all add: prefix_acts_def)

lemma prefix_acts_simps [simp]:
  "prefix_acts a (Normal x b w) = Normal x (a @ b) w"
  "prefix_acts a (Raise e b w) = Raise e (a @ b) w"
  "prefix_acts a (Block b) = Block (a @ b)"
  by (simp_all add: prefix_acts_def)

lemma ACK_bytes: "utf8_encode ACK = Inr ''Message received''"
  by code_simp

lemma sock_send_free: "sock_send b \<lparr>rx = r, tx = []\<rparr> = Sent \<lparr>rx = r, tx = []\<rparr>"
  by (simp add: sock_send_def)

lemma recv_Data:
  "rx w = Data bs # r \<Longrightarrow> 0 < n \<Longrightarrow> n \<le> PY_SSIZE_T_MAX \<Longrightarrow>
   recv n w = Returns (take (nat n) bs)
     (w\<lparr>rx := (if drop (nat n) bs = [] then r else Data (drop (nat n) bs) # r)\<rparr>)"
  by (simp add: recv_def)

lemma recv_negative: "n < 0 \<Longrightarrow> recv n w = Raises ValueError w"
  by (simp add: recv_def)

lemma iteration_Raise:
  "try_body U addr w = Raise e acts w' \<Longrightarrow>
   iteration U addr w = Normal False (acts @ [Print (except_line addr e)]) w'"
  by (simp add: iteration_def)

lemma iteration_eof:
  "recv HEADER w = Returns [] w' \<Longrightarrow>
   iteration U addr w = Normal False [Recv HEADER (Inr [])] w'"
  by (simp add: iteration_def try_body_def decode_header_def)

lemma iteration_bad_header:
  "recv HEADER w = Returns b w1 \<Longrightarrow> decode_header U b = Inl e \<Longrightarrow>
   iteration U addr w = Normal False [Recv HEADER (Inr b), Print (except_line addr e)] w1"
  by (simp add: iteration_def try_body_def)

lemma iteration_frame:
  "recv HEADER w = Returns b w1 \<Longrightarrow> decode_header U b = Inr (Some n) \<Longrightarrow>
   recv n w1 = Returns p w2 \<Longrightarrow> utf8_decode p = Inr msg \<Longrightarrow> printable U msg \<Longrightarrow>
   sock_send ''Message received'' w2 = Sent w3 \<Longrightarrow>
   iteration U addr w =
     Normal (msg \<noteq> MSG_DISCONNECT)
       [Recv HEADER (Inr b), Recv n (Inr p), Print (Received addr msg),
        Send ''Message received'' None] w3"
  by (simp add: iteration_def try_body_def receive_message_def reply_def ACK_bytes)



lemma printable_latin1: "\<forall>c \<in> set s. c < 256 \<Longrightarrow> printable latin1_db s"
  by (simp add: printable_def latin1_db_def list_all_iff)

lemma iteration_payload_Raises:
  "recv HEADER w = Returns b w1 \<Longrightarrow> decode_header U b = Inr (Some n) \<Longrightarrow>
   recv n w1 = Raises e w2 \<Longrightarrow>
   iteration U addr w =
     Normal False [Recv HEADER (Inr b), Recv n (Inl e), Print (except_line addr e)] w2"
  by (simp add: iteration_def try_body_def receive_message_def)

lemma iteration_not_Raise: "iteration U addr w \<noteq> Raise e acts w'"
  by (simp add: iteration_def split: result.splits)

lemma Received_in_trace:
  assumes "recv HEADER w = Returns b w1"
    and "Print (Received addr msg) \<in> set (trace (iteration U addr w))"
  shows "\<exists>n. 0 \<le> n \<and> decode_header U b = Inr (Some n)"
proof (cases "decode_header U b")
  case (Inl e)
  with assms show ?thesis
    by (simp add: iteration_def try_body_def except_line_def split: if_splits)
next
  case (Inr opt)
  show ?thesis
  proof (cases opt)
    case None
    with Inr assms show ?thesis by (simp add: iteration_def try_body_def)
  next
    case (Some n)
    show ?thesis
    proof (cases "n < 0")
      case True
      from iteration_payload_Raises [OF assms(1) _ recv_negative [OF True], of U addr]
        Inr Some assms(2)
      show ?thesis by (simp add: except_line_def isinstance_ValueError_def)
    next
      case False
      with Inr Some show ?thesis by simp
    qed
  qed
qed

lemma passes_Suc:
  "iteration U addr w = Normal True a w1 \<Longrightarrow> passes U addr k w1 = Some (rest, w2) \<Longrightarrow>
   passes U addr (Suc k) w = Some (a @ rest, w2)"
  by simp

lemma passes_one:
  "iteration U addr w = Normal True a w1 \<Longrightarrow> passes U addr (Suc 0) w = Some (a, w1)"
  by simp

lemma loop_step:
  "iteration U addr w = Normal True a w1 \<Longrightarrow>
   loop U addr w = prefix_acts a (loop U addr w1)"
  by (subst loop.simps) simp

lemma loop_stop:
  "iteration U addr w = Normal False acts w' \<Longrightarrow> loop U addr w = Normal () acts w'"
  by (subst loop.simps) simp

lemma loop_passes:
  "passes U addr k w0 = Some (acts, w) \<Longrightarrow> loop U addr w0 = prefix_acts acts (loop U addr w)"
proof (induction k arbitrary: w0 acts)
  case 0
  then show ?case by simp
next
  case (Suc k)
  from Suc.prems obtain a w1 rest where
    it: "iteration U addr w0 = Normal True a w1" and
    ps: "passes U addr k w1 = Some (rest, w)" and
    ac: "acts = a @ rest"
    by (auto split: result.splits if_splits option.splits)
  from Suc.IH [OF ps] have "loop U addr w1 = prefix_acts rest (loop U addr w)" .
  then show ?case using it ac by (subst loop.simps) simp
qed

lemma loop_not_Raise: "loop U addr w \<noteq> Raise e acts w'"
proof (induction U addr w arbitrary: acts rule: loop.induct)
  case (1 U addr w)
  show ?case
  proof (cases "iteration U addr w")
    case (Normal c a w1)
    show ?thesis
    proof (cases c)
      case True
      with Normal "1.IH" [of c a w1] show ?thesis
        by (subst loop.simps) (cases "loop U addr w1"; simp)
    next
      case False
      with Normal show ?thesis by (subst loop.simps) simp
    qed
  next
    case (Raise e' a w1)
    then show ?thesis using iteration_not_Raise by blast
  next
    case (Block a)
    then show ?thesis by (subst loop.simps) simp
  qed
qed

lemma handle_client_stop:
  assumes "passes U addr k w0 = Some (acts, w)"
    and "iteration U addr w = Normal False acts' w'"
  shows "handle_client U addr w0 =
    Normal () (Print (NewConnection addr) # acts @ acts' @ [Print (Closing addr), Close]) w'"
  using loop_passes [OF assms(1)] loop_stop [OF assms(2)]
  by (simp add: handle_client_def)

lemma handle_client_cases:
  "(\<exists>acts w'. loop U addr w = Normal () acts w' \<and>
      handle_client U addr w =
        Normal () (Print (NewConnection addr) # acts @ [Print (Closing addr), Close]) w') \<or>
   (\<exists>acts. loop U addr w = Block acts \<and>
      handle_client U addr w = Block (Print (NewConnection addr) # acts))"
  using loop_not_Raise [of U addr w]
  by (cases "loop U addr w") (auto simp: handle_client_def)

lemma reply_no_Close: "Close \<notin> set acts \<Longrightarrow> Close \<notin> set (trace (reply acts c w))"
  by (auto simp: reply_def split: sum.splits send_result.splits)

lemma receive_message_no_Close:
  "Close \<notin> set acts \<Longrightarrow> Close \<notin> set (trace (receive_message U addr acts n w))"
  by (auto simp: receive_message_def intro!: reply_no_Close split: recv_result.splits sum.splits)

lemma try_body_no_Close: "Close \<notin> set (trace (try_body U addr w))"
  by (auto simp: try_body_def intro!: receive_message_no_Close
      split: recv_result.splits sum.splits option.splits)

lemma iteration_no_Close: "Close \<notin> set (trace (iteration U addr w))"
  using try_body_no_Close [of U addr w]
  by (auto simp: iteration_def split: result.splits)

lemma loop_no_Close: "Close \<notin> set (trace (loop U addr w))"
proof (induction U addr w rule: loop.induct)
  case (1 U addr w)
  show ?case
  proof (cases "iteration U addr w")
    case (Normal c a w1)
    have a: "Close \<notin> set a" using iteration_no_Close [of U addr w] Normal by simp
    show ?thesis
    proof (cases c)
      case True
      with Normal "1.IH" [of c a w1] a show ?thesis
        by (subst loop.simps) simp
    next
      case False
      with Normal a show ?thesis by (subst loop.simps) simp
    qed
  next
    case (Raise e' a w1)
    then show ?thesis using iteration_not_Raise by blast
  next
    case (Block a)
    then show ?thesis using iteration_no_Close [of U addr w] by (subst loop.simps) simp
  qed
qed

lemma handle_client_close_once:
  "handle_client U addr w = Normal u tr w' \<Longrightarrow> count_list tr Close = 1 \<and> last tr = Close"
  using handle_client_cases [of U addr w] loop_no_Close [of U addr w]
  by (auto simp: count_list_0_iff)

lemma handle_client_Block_no_Close:
  "handle_client U addr w = Block tr \<Longrightarrow> Close \<notin> set tr"
  using handle_client_cases [of U addr w] loop_no_Close [of U addr w]
  by auto






lemma recv_calls_append [simp]: "recv_calls (xs @ ys) = recv_calls xs @ recv_calls ys"
  by (induction xs rule: recv_calls.induct) simp_all

lemma recv_calls_reply: "recv_calls (trace (reply acts c w)) = recv_calls acts"
  by (auto simp: reply_def split: sum.splits send_result.splits)

lemma recv_calls_receive_message:
  "recv_calls (trace (receive_message U addr acts n w)) = recv_calls acts @ [n]"
  by (auto simp: receive_message_def recv_calls_reply split: recv_result.splits sum.splits)

lemma recv_calls_try_body:
  "recv_calls (trace (try_body U addr v)) = [HEADER] \<or>
   (\<exists>b v' m. recv HEADER v = Returns b v' \<and> decode_header U b = Inr (Some m) \<and>
      recv_calls (trace (try_body U addr v)) = [HEADER, m])"
  by (auto simp: try_body_def recv_calls_receive_message
      split: recv_result.splits sum.splits option.splits)

section \<open>Facts about the client\<close>

lemma send_ok:
  "frame msg = Inr (h, m) \<Longrightarrow> sock_send h w = Sent w1 \<Longrightarrow> sock_send m w1 = Sent w2 \<Longrightarrow>
   recv 2048 w2 = Returns r w3 \<Longrightarrow> utf8_decode r = Inr resp \<Longrightarrow>
   send msg w =
     Normal True [Send h None, Send m None, Recv 2048 (Inr r), Print (Server resp)] w3"
  by (simp add: send_def transmit_def)

lemma send_lost:
  "frame msg = Inr (h, m) \<Longrightarrow> sock_send h w = SendRaises BrokenPipeError w1 \<Longrightarrow>
   send msg w = Normal False [Send h (Some BrokenPipeError), Print ErrorLost] w1"
  by (simp add: send_def transmit_def)

lemma send_recv_Raises:
  "frame msg = Inr (h, m) \<Longrightarrow> sock_send h w = Sent w1 \<Longrightarrow> sock_send m w1 = Sent w2 \<Longrightarrow>
   recv 2048 w2 = Raises e w3 \<Longrightarrow> e \<noteq> ConnectionResetError \<Longrightarrow> e \<noteq> BrokenPipeError \<Longrightarrow>
   send msg w = Raise e [Send h None, Send m None, Recv 2048 (Inl e)] w3"
  by (simp add: send_def transmit_def)

lemma send_False:
  "send message w = Normal False acts w' \<Longrightarrow> message \<noteq> [] \<Longrightarrow>
   main_loop (Line message # ins) w = Normal () (Input (Inr message) # acts) w'"
  by simp

lemma send_Raise:
  "send message w = Raise e acts w' \<Longrightarrow> message \<noteq> [] \<Longrightarrow>
   main_loop (Line message # ins) w = Raise e (Input (Inr message) # acts) w'"
  by simp

lemma main_loop_empty:
  "main_loop (Line [] # ins) w = prefix_acts [Input (Inr [])] (main_loop ins w)"
  by simp

lemma main_loop_sentinel:
  "main_loop (Line MSG_DISCONNECT # ins) w =
     prefix_acts [Input (Inr MSG_DISCONNECT)]
       (case send MSG_DISCONNECT w of
          Normal ok acts w' \<Rightarrow> Normal () acts w'
        | Raise e acts w' \<Rightarrow> Raise e acts w'
        | Block acts \<Rightarrow> Block acts)"
proof -
  have "MSG_DISCONNECT \<noteq> []" by (simp add: MSG_DISCONNECT_def)
  then show ?thesis by (cases "send MSG_DISCONNECT w") simp_all
qed

lemma main_loop_step:
  "send message w = Normal True acts w' \<Longrightarrow> message \<noteq> [] \<Longrightarrow> message \<noteq> MSG_DISCONNECT \<Longrightarrow>
   main_loop (Line message # ins) w =
     prefix_acts (Input (Inr message) # acts) (main_loop ins w')"
  by simp

lemma transmit_no_Close: "Close \<notin> set (trace (transmit h m w))"
  by (auto simp: transmit_def split: send_result.splits recv_result.splits sum.splits)

lemma send_no_Close: "Close \<notin> set (trace (send msg w))"
proof (cases "frame msg")
  case (Inl e)
  then show ?thesis by (simp add: send_def)
next
  case (Inr p)
  obtain h m where p: "p = (h, m)" by (cases p)
  show ?thesis
    using transmit_no_Close [of h m w] Inr p
    by (cases "transmit h m w") (simp_all add: send_def)
qed

lemma main_loop_no_Close: "Close \<notin> set (trace (main_loop ins w))"
proof (induction ins w rule: main_loop.induct)
  case (1 w)
  show ?case by simp
next
  case (2 e ins w)
  show ?case by simp
next
  case (3 message ins w)
  show ?case
  proof (cases "message = []")
    case True
    with "3.IH"(2) show ?thesis by simp
  next
    case False
    show ?thesis
    proof (cases "send message w")
      case (Normal ok acts w')
      have a: "Close \<notin> set acts" using send_no_Close [of message w] Normal by simp
      show ?thesis
      proof (cases "ok \<and> message \<noteq> MSG_DISCONNECT")
        case True
        with False Normal a "3.IH"(1) [of ok acts w'] show ?thesis by simp
      next
        case False
        with \<open>message \<noteq> []\<close> Normal a show ?thesis by auto
      qed
    next
      case (Raise e acts w')
      with False send_no_Close [of message w] show ?thesis by simp
    next
      case (Block acts)
      with False send_no_Close [of message w] show ?thesis by simp
    qed
  qed
qed

lemma Send_in_transmit:
  "Send b r \<in> set (trace (transmit h m w)) \<Longrightarrow> b = h \<or> b = m"
  by (auto simp: transmit_def split: send_result.splits recv_result.splits sum.splits)

lemma Send_in_send:
  assumes "Send b r \<in> set (trace (send msg w))"
  shows "\<exists>h m. frame msg = Inr (h, m) \<and> (b = h \<or> b = m)"
proof (cases "frame msg")
  case (Inl e)
  with assms show ?thesis by (simp add: send_def split: if_splits)
next
  case (Inr p)
  obtain h m where p: "p = (h, m)" by (cases p)
  have "Send b r \<in> set (trace (transmit h m w))"
    using assms Inr p
    by (cases "transmit h m w") (auto simp: send_def split: if_splits)
  from Send_in_transmit [OF this] Inr p show ?thesis by simp
qed

lemma Send_in_main_loop:
  "Send b r \<in> set (trace (main_loop ins w)) \<Longrightarrow>
   \<exists>message h m. Line message \<in> set ins \<and> message \<noteq> [] \<and>
      frame message = Inr (h, m) \<and> (b = h \<or> b = m)"
proof (induction ins w rule: main_loop.induct)
  case (1 w)
  then show ?case by simp
next
  case (2 e ins w)
  then show ?case by simp
next
  case (3 message ins w)
  show ?case
  proof (cases "message = []")
    case True
    with "3.prems" have "Send b r \<in> set (trace (main_loop ins w))" by simp
    from "3.IH"(2) [OF _ this] True show ?thesis by auto
  next
    case False
    show ?thesis
    proof (cases "Send b r \<in> set (trace (send message w))")
      case True
      from Send_in_send [OF True] False show ?thesis by auto
    next
      case nosend: False
      show ?thesis
      proof (cases "send message w")
        case (Normal ok acts w')
        show ?thesis
        proof (cases "ok \<and> message \<noteq> MSG_DISCONNECT")
          case True
          with \<open>message \<noteq> []\<close> Normal nosend "3.prems"
          have "Send b r \<in> set (trace (main_loop ins w'))" by simp
          from "3.IH"(1) [OF \<open>message \<noteq> []\<close> Normal _ _ this] True show ?thesis by auto
        next
          case False
          with \<open>message \<noteq> []\<close> Normal nosend "3.prems" show ?thesis
            by (auto split: if_splits)
        qed
      next
        case (Raise e acts w')
        with \<open>message \<noteq> []\<close> nosend "3.prems" show ?thesis by simp
      next
        case (Block acts)
        with \<open>message \<noteq> []\<close> nosend "3.prems" show ?thesis by simp
      qed
    qed
  qed
qed

section \<open>Runs used as examples\<close>

lemma hi_frame:
  "frame (map of_char ''hi'') = Inr (''2'' @ replicate 63 (CHR '' ''), ''hi'')"
  by code_simp

lemma bye_frame:
  "frame MSG_DISCONNECT = Inr (''11'' @ replicate 62 (CHR '' ''), ''!Disconnect'')"
  by code_simp

lemma recv_ack:
  "recv 2048 \<lparr>rx = Data ''Message received'' # r, tx = t\<rparr> =
     Returns ''Message received'' \<lparr>rx = r, tx = t\<rparr>"
  by (simp add: recv_def PY_SSIZE_T_MAX_def)

lemma decode_ack: "utf8_decode ''Message received'' = Inr ACK"
  by code_simp

lemma hi_pass:
  "passes latin1_db peer (Suc 0)
      \<lparr>rx = Data (''2'' @ replicate 63 (CHR '' '') @ ''hi'') # r, tx = []\<rparr>
     = Some ([Recv HEADER (Inr (''2'' @ replicate 63 (CHR '' ''))), Recv 2 (Inr ''hi''),
              Print (Received peer (map of_char ''hi'')), Send ''Message received'' None],
             \<lparr>rx = r, tx = []\<rparr>)"
proof -
  have r1: "recv HEADER \<lparr>rx = Data (''2'' @ replicate 63 (CHR '' '') @ ''hi'') # r, tx = []\<rparr>
      = Returns (''2'' @ replicate 63 (CHR '' '')) \<lparr>rx = Data ''hi'' # r, tx = []\<rparr>"
    by (simp add: recv_def HEADER_def PY_SSIZE_T_MAX_def)
  have d: "decode_header latin1_db (''2'' @ replicate 63 (CHR '' '')) = Inr (Some 2)"
    by code_simp
  have r2: "recv 2 \<lparr>rx = Data ''hi'' # r, tx = []\<rparr> = Returns ''hi'' \<lparr>rx = r, tx = []\<rparr>"
    by (simp add: recv_def PY_SSIZE_T_MAX_def)
  have u: "utf8_decode ''hi'' = Inr (map of_char ''hi'')" by code_simp
  have pr: "printable latin1_db (map of_char ''hi'')" by (rule printable_latin1) simp
  have n: "map of_char ''hi'' \<noteq> MSG_DISCONNECT" by (simp add: MSG_DISCONNECT_def)
  from iteration_frame [OF r1 d r2 u pr sock_send_free, of peer] n
  have "iteration latin1_db peer
      \<lparr>rx = Data (''2'' @ replicate 63 (CHR '' '') @ ''hi'') # r, tx = []\<rparr> =
     Normal True [Recv HEADER (Inr (''2'' @ replicate 63 (CHR '' ''))), Recv 2 (Inr ''hi''),
              Print (Received peer (map of_char ''hi'')), Send ''Message received'' None]
        \<lparr>rx = r, tx = []\<rparr>" by simp
  from passes_Suc [OF this, of 0] show ?thesis by simp
qed

lemma hi_run:
  "client_main [Line [], Line (map of_char ''hi'')] \<lparr>rx = [Data ''Message received''], tx = []\<rparr> =
     Block
       [Print Banner, Input (Inr []), Input (Inr (map of_char ''hi'')),
        Send (''2'' @ replicate 63 (CHR '' '')) None, Send ''hi'' None,
        Recv 2048 (Inr ''Message received''), Print (Server ACK), InputWait]"
proof -
  let ?w = "\<lparr>rx = [Data ''Message received''], tx = []\<rparr>"
  have s: "send (map of_char ''hi'') ?w =
      Normal True
        [Send (''2'' @ replicate 63 (CHR '' '')) None, Send ''hi'' None,
         Recv 2048 (Inr ''Message received''), Print (Server ACK)] \<lparr>rx = [], tx = []\<rparr>"
    by (rule send_ok [OF hi_frame sock_send_free sock_send_free recv_ack decode_ack])
  have n1: "map of_char ''hi'' \<noteq> ([] :: nat list)" by simp
  have n2: "map of_char ''hi'' \<noteq> MSG_DISCONNECT" by code_simp
  note m1 = main_loop_step [OF s n1 n2, of "[]"]
  note m2 = main_loop_empty [of "[Line (map of_char ''hi'')]" ?w]
  show ?thesis unfolding client_main_def m2 m1 by simp
qed

section \<open>The frame format\<close>

text \<open>
  C1.  Round trip of the frame.  Take a text whose UTF-8 encoding \<open>message\<close> has a length
  with at most 64 decimal digits.  The client's steps (encode, \<^verbatim>\<open>str\<close> of the length,
  padding with spaces, header then payload) give a header of exactly 64 bytes; what the
  server does with the first 64 bytes of header followed by payload (decode, \<^verbatim>\<open>int\<close>)
  gives the length of \<open>message\<close>; and the bytes after the first 64 are \<open>message\<close>.
\<close>

theorem frame_roundtrip:
  assumes "utf8_encode msg = Inr message"
    and "length (py_str (length message)) \<le> 64"
  shows "\<exists>send_length.
           frame msg = Inr (send_length, message) \<and>
           length send_length = nat HEADER \<and>
           decode_header U (take (nat HEADER) (send_length @ message))
             = Inr (Some (int (length message))) \<and>
           drop (nat HEADER) (send_length @ message) = message"
proof -
  let ?n = "length message"
  let ?h = "map char_of (py_str ?n) @ replicate (64 - length (py_str ?n)) (CHR '' '')"
  have f: "frame msg = Inr (?h, message)" using assms(1) by (rule frame_eq)
  have l: "length ?h = nat HEADER" using assms(2) by (simp add: HEADER_def)
  have "py_str ?n \<noteq> []" by (rule py_str_nonempty)
  then have d: "decode_header U ?h = Inr (Some (int ?n))"
    by (simp add: decode_header_def utf8_decode_header py_int_py_str)
  show ?thesis using f l d by (simp add: HEADER_def)
qed

theorem frame_roundtrip_witness:
  "utf8_encode [0x68, 0xE9] = Inr [CHR 0x68, CHR 0xC3, CHR 0xA9] \<and>
   length (py_str (length [CHR 0x68, CHR 0xC3, CHR 0xA9])) \<le> 64 \<and>
   frame [0x68, 0xE9] = Inr (''3'' @ replicate 63 (CHR '' ''), [CHR 0x68, CHR 0xC3, CHR 0xA9]) \<and>
   decode_header latin1_db (''3'' @ replicate 63 (CHR '' '')) = Inr (Some 3)"
proof -
  have h1: "utf8_encode [0x68, 0xE9] = Inr [CHR 0x68, CHR 0xC3, CHR 0xA9]"
    by code_simp
  have h2: "length (py_str (length [CHR 0x68, CHR 0xC3, CHR 0xA9])) \<le> 64"
    by (simp add: py_str.simps)
  have f: "frame [0x68, 0xE9] = Inr (''3'' @ replicate 63 (CHR '' ''), [CHR 0x68, CHR 0xC3, CHR 0xA9])"
    by code_simp
  from frame_roundtrip [OF h1 h2, of latin1_db] f h1 h2 show ?thesis
    by (auto simp: HEADER_def)
qed

text \<open>
  The same round trip seen from the handler: when the frame of a text arrives in one
  piece and the console can show the text, one pass of the loop reads the 64 header
  bytes, reads the payload, and logs the text that the client encoded.
\<close>

lemma frame_delivered:
  assumes enc: "utf8_encode msg = Inr message"
    and cps: "\<forall>c \<in> set msg. c < 0x110000"
    and fits: "length (py_str (length message)) \<le> 64"
    and size: "int (length message) \<le> PY_SSIZE_T_MAX"
    and pr: "printable U msg"
    and fr: "frame msg = Inr (send_length, message)"
    and rx: "rx w = Data (send_length @ message) # r"
    and tx: "tx w = []"
  shows "iteration U addr w =
           Normal (msg \<noteq> MSG_DISCONNECT)
             [Recv HEADER (Inr send_length), Recv (int (length message)) (Inr message),
              Print (Received addr msg), Send ''Message received'' None]
             (w\<lparr>rx := r\<rparr>)"
proof -
  let ?n = "length message"
  have h: "send_length = map char_of (py_str ?n) @ replicate (64 - length (py_str ?n)) (CHR '' '')"
    using frame_Inr [OF fr] by simp
  have len: "length send_length = 64" using fits by (simp add: h)
  let ?w1 = "w\<lparr>rx := (if message = [] then r else Data message # r)\<rparr>"
  have r1: "recv HEADER w = Returns send_length ?w1"
    using recv_Data [OF rx, of HEADER] len by (simp add: HEADER_def PY_SSIZE_T_MAX_def)
  have d: "decode_header U send_length = Inr (Some (int ?n))"
    unfolding h using fits by (rule decode_header_frame)
  have r2: "recv (int ?n) ?w1 = Returns message (w\<lparr>rx := r\<rparr>)"
  proof (cases "message = []")
    case True
    then show ?thesis by (simp add: recv_def PY_SSIZE_T_MAX_def)
  next
    case False
    then have "rx ?w1 = Data message # r" and "0 < int ?n" by simp_all
    from recv_Data [OF this size] show ?thesis by simp
  qed
  have u: "utf8_decode message = Inr msg" using cps enc by (rule utf8_roundtrip)
  have s: "sock_send ''Message received'' (w\<lparr>rx := r\<rparr>) = Sent (w\<lparr>rx := r\<rparr>)"
    using tx by (simp add: sock_send_def)
  from iteration_frame [OF r1 d r2 u pr s] show ?thesis .
qed

section \<open>The handler: reading one frame\<close>

text \<open>
  C3, as stated, fails.  The frame \<^verbatim>\<open>5\<close>, 63 spaces, \<^verbatim>\<open>hello\<close> arrives in two pieces.
  Cut after the first byte: the handler takes the one byte \<^verbatim>\<open>5\<close> as the whole header,
  then five bytes of padding as the whole payload, acknowledges them, and rejects what is
  left as an invalid header.  Cut inside the payload: the handler takes \<^verbatim>\<open>he\<close> as the
  whole payload of declared length 5.
\<close>

theorem short_read_counterexample:
  "handle_client latin1_db peer
     \<lparr>rx = [Data ''5'', Data (replicate 63 (CHR '' '') @ ''hello''), Eof], tx = []\<rparr> =
   Normal ()
     [Print (NewConnection peer),
      Recv HEADER (Inr ''5''), Recv 5 (Inr (replicate 5 (CHR '' ''))),
      Print (Received peer (replicate 5 0x20)), Send ''Message received'' None,
      Recv HEADER (Inr (replicate 58 (CHR '' '') @ ''hello'')),
      Print (ErrorInvalidHeader peer),
      Print (Closing peer), Close]
     \<lparr>rx = [Eof], tx = []\<rparr> \<and>
   handle_client latin1_db peer
     \<lparr>rx = [Data (''5'' @ replicate 63 (CHR '' '') @ ''he''), Data ''llo'', Eof], tx = []\<rparr> =
   Normal ()
     [Print (NewConnection peer),
      Recv HEADER (Inr (''5'' @ replicate 63 (CHR '' ''))), Recv 5 (Inr ''he''),
      Print (Received peer (map of_char ''he'')), Send ''Message received'' None,
      Recv HEADER (Inr ''llo''),
      Print (ErrorInvalidHeader peer),
      Print (Closing peer), Close]
     \<lparr>rx = [Eof], tx = []\<rparr>"
proof -
  have nd: "replicate 5 (0x20::nat) \<noteq> MSG_DISCONNECT"
    by code_simp
  have ev: "except_line peer ValueError = ErrorInvalidHeader peer"
    by (simp add: except_line_def isinstance_ValueError_def)
  \<comment> \<open>first script\<close>
  have a1: "recv HEADER \<lparr>rx = [Data ''5'', Data (replicate 63 (CHR '' '') @ ''hello''), Eof], tx = []\<rparr>
      = Returns ''5'' \<lparr>rx = [Data (replicate 63 (CHR '' '') @ ''hello''), Eof], tx = []\<rparr>"
    by (simp add: recv_def HEADER_def PY_SSIZE_T_MAX_def)
  have a2: "decode_header latin1_db ''5'' = Inr (Some 5)" by code_simp
  have a3: "recv 5 \<lparr>rx = [Data (replicate 63 (CHR '' '') @ ''hello''), Eof], tx = []\<rparr>
      = Returns (replicate 5 (CHR '' ''))
          \<lparr>rx = [Data (replicate 58 (CHR '' '') @ ''hello''), Eof], tx = []\<rparr>"
    by (simp add: recv_def PY_SSIZE_T_MAX_def)
  have a4: "utf8_decode (replicate 5 (CHR '' '')) = Inr (replicate 5 0x20)" by code_simp
  have a5: "iteration latin1_db peer
       \<lparr>rx = [Data ''5'', Data (replicate 63 (CHR '' '') @ ''hello''), Eof], tx = []\<rparr> =
     Normal True
       [Recv HEADER (Inr ''5''), Recv 5 (Inr (replicate 5 (CHR '' ''))),
        Print (Received peer (replicate 5 0x20)), Send ''Message received'' None]
       \<lparr>rx = [Data (replicate 58 (CHR '' '') @ ''hello''), Eof], tx = []\<rparr>"
    using iteration_frame [OF a1 a2 a3 a4 _ sock_send_free, of peer] nd
    by (simp add: printable_latin1)
  have a6: "recv HEADER \<lparr>rx = [Data (replicate 58 (CHR '' '') @ ''hello''), Eof], tx = []\<rparr>
      = Returns (replicate 58 (CHR '' '') @ ''hello'') \<lparr>rx = [Eof], tx = []\<rparr>"
    by (simp add: recv_def HEADER_def PY_SSIZE_T_MAX_def)
  have a7: "decode_header latin1_db (replicate 58 (CHR '' '') @ ''hello'') = Inl ValueError"
    by code_simp
  have a8: "handle_client latin1_db peer
     \<lparr>rx = [Data ''5'', Data (replicate 63 (CHR '' '') @ ''hello''), Eof], tx = []\<rparr> =
    Normal ()
     (Print (NewConnection peer) #
      ([Recv HEADER (Inr ''5''), Recv 5 (Inr (replicate 5 (CHR '' ''))),
        Print (Received peer (replicate 5 0x20)), Send ''Message received'' None] @ []) @
      [Recv HEADER (Inr (replicate 58 (CHR '' '') @ ''hello'')),
       Print (except_line peer ValueError)] @ [Print (Closing peer), Close])
     \<lparr>rx = [Eof], tx = []\<rparr>"
    using handle_client_stop [OF passes_one [OF a5] iteration_bad_header [OF a6 a7]]
    by simp
  \<comment> \<open>second script\<close>
  have b1: "recv HEADER
       \<lparr>rx = [Data (''5'' @ replicate 63 (CHR '' '') @ ''he''), Data ''llo'', Eof], tx = []\<rparr>
      = Returns (''5'' @ replicate 63 (CHR '' '')) \<lparr>rx = [Data ''he'', Data ''llo'', Eof], tx = []\<rparr>"
    by (simp add: recv_def HEADER_def PY_SSIZE_T_MAX_def)
  have b2: "decode_header latin1_db (''5'' @ replicate 63 (CHR '' '')) = Inr (Some 5)"
    by code_simp
  have b3: "recv 5 \<lparr>rx = [Data ''he'', Data ''llo'', Eof], tx = []\<rparr>
      = Returns ''he'' \<lparr>rx = [Data ''llo'', Eof], tx = []\<rparr>"
    by (simp add: recv_def PY_SSIZE_T_MAX_def)
  have b4: "utf8_decode ''he'' = Inr (map of_char ''he'')" by code_simp
  have b4': "map of_char ''he'' \<noteq> MSG_DISCONNECT" by (simp add: MSG_DISCONNECT_def)
  have b5: "iteration latin1_db peer
       \<lparr>rx = [Data (''5'' @ replicate 63 (CHR '' '') @ ''he''), Data ''llo'', Eof], tx = []\<rparr> =
     Normal True
       [Recv HEADER (Inr (''5'' @ replicate 63 (CHR '' ''))), Recv 5 (Inr ''he''),
        Print (Received peer (map of_char ''he'')), Send ''Message received'' None]
       \<lparr>rx = [Data ''llo'', Eof], tx = []\<rparr>"
    using iteration_frame [OF b1 b2 b3 b4 _ sock_send_free, of peer] b4'
    by (simp add: printable_latin1)
  have b6: "recv HEADER \<lparr>rx = [Data ''llo'', Eof], tx = []\<rparr>
      = Returns ''llo'' \<lparr>rx = [Eof], tx = []\<rparr>"
    by (simp add: recv_def HEADER_def PY_SSIZE_T_MAX_def)
  have b7: "decode_header latin1_db ''llo'' = Inl ValueError" by code_simp
  have b8: "handle_client latin1_db peer
     \<lparr>rx = [Data (''5'' @ replicate 63 (CHR '' '') @ ''he''), Data ''llo'', Eof], tx = []\<rparr> =
    Normal ()
     (Print (NewConnection peer) #
      ([Recv HEADER (Inr (''5'' @ replicate 63 (CHR '' ''))), Recv 5 (Inr ''he''),
        Print (Received peer (map of_char ''he'')), Send ''Message received'' None] @ []) @
      [Recv HEADER (Inr ''llo''),
       Print (except_line peer ValueError)] @ [Print (Closing peer), Close])
     \<lparr>rx = [Eof], tx = []\<rparr>"
    using handle_client_stop [OF passes_one [OF b5] iteration_bad_header [OF b6 b7]]
    by simp
  show ?thesis using a8 b8 by (simp add: ev)
qed

text \<open>
  C3, amended.  Reading one frame is two single \<^verbatim>\<open>recv\<close> calls, the first for 64 bytes
  and, when the header decodes to a length, the second for that length; no call is
  repeated, so each takes what that one call returns.  When the 64 bytes of the header
  and the bytes of the payload have all arrived before the first call, the handler
  obtains exactly the 64 header bytes and then exactly as many payload bytes as the
  header says.
\<close>

theorem two_step_read:
  assumes "rx w = Data bs # r"
    and "decode_header U (take 64 bs) = Inr (Some n)"
    and "0 \<le> n" and "n \<le> PY_SSIZE_T_MAX"
    and "64 + nat n \<le> length bs"
  shows "(\<exists>rest. trace (try_body U addr w) =
            Recv HEADER (Inr (take 64 bs)) #
            Recv n (Inr (take (nat n) (drop 64 bs))) # rest) \<and>
         length (take 64 bs) = nat HEADER \<and>
         length (take (nat n) (drop 64 bs)) = nat n \<and>
         recv_calls (trace (try_body U addr w)) = [HEADER, n] \<and>
         (recv_calls (trace (try_body U addr v)) = [HEADER] \<or>
          (\<exists>b v' m. recv HEADER v = Returns b v' \<and> decode_header U b = Inr (Some m) \<and>
             recv_calls (trace (try_body U addr v)) = [HEADER, m]))"
proof -
  let ?w1 = "w\<lparr>rx := (if drop 64 bs = [] then r else Data (drop 64 bs) # r)\<rparr>"
  have r1: "recv HEADER w = Returns (take 64 bs) ?w1"
    using recv_Data [OF assms(1), of HEADER] by (simp add: HEADER_def PY_SSIZE_T_MAX_def)
  have r2: "\<exists>w2. recv n ?w1 = Returns (take (nat n) (drop 64 bs)) w2"
  proof (cases "n = 0")
    case True
    then show ?thesis by (simp add: recv_def PY_SSIZE_T_MAX_def)
  next
    case False
    then have pos: "0 < n" using assms(3) by simp
    then have "drop 64 bs \<noteq> []" using assms(5) by auto
    then have "rx ?w1 = Data (drop 64 bs) # r" by simp
    from recv_Data [OF this pos assms(4)] show ?thesis by blast
  qed
  then obtain w2 where r2': "recv n ?w1 = Returns (take (nat n) (drop 64 bs)) w2" ..
  have t: "\<exists>rest. trace (try_body U addr w) =
            Recv HEADER (Inr (take 64 bs)) # Recv n (Inr (take (nat n) (drop 64 bs))) # rest"
    using r1 r2' assms(2)
    by (auto simp: try_body_def receive_message_def reply_def
        split: sum.splits send_result.splits if_splits)
  have c: "recv_calls (trace (try_body U addr w)) = [HEADER, n]"
    using r1 assms(2) by (simp add: try_body_def recv_calls_receive_message)
  show ?thesis using t c assms(5) recv_calls_try_body [of U addr v]
    by (simp add: HEADER_def)
qed

theorem two_step_read_witness:
  "rx \<lparr>rx = [Data (''2'' @ replicate 63 (CHR '' '') @ ''hi''), Eof], tx = []\<rparr> =
     Data (''2'' @ replicate 63 (CHR '' '') @ ''hi'') # [Eof] \<and>
   decode_header latin1_db (take 64 (''2'' @ replicate 63 (CHR '' '') @ ''hi'')) = Inr (Some 2) \<and>
   (0::int) \<le> 2 \<and> 2 \<le> PY_SSIZE_T_MAX \<and>
   64 + nat 2 \<le> length (''2'' @ replicate 63 (CHR '' '') @ ''hi'') \<and>
   (\<exists>rest. trace (try_body latin1_db peer
               \<lparr>rx = [Data (''2'' @ replicate 63 (CHR '' '') @ ''hi''), Eof], tx = []\<rparr>) =
      Recv HEADER (Inr (''2'' @ replicate 63 (CHR '' ''))) # Recv 2 (Inr ''hi'') # rest) \<and>
   recv_calls (trace (try_body latin1_db peer
               \<lparr>rx = [Data (''2'' @ replicate 63 (CHR '' '') @ ''hi''), Eof], tx = []\<rparr>)) =
     [HEADER, 2]"
proof -
  let ?bs = "''2'' @ replicate 63 (CHR '' '') @ ''hi''"
  have h1: "rx \<lparr>rx = [Data ?bs, Eof], tx = []\<rparr> = Data ?bs # [Eof]" by simp
  have h2: "decode_header latin1_db (take 64 ?bs) = Inr (Some 2)" by code_simp
  have h3: "(0::int) \<le> 2" by simp
  have h4: "2 \<le> PY_SSIZE_T_MAX" by (simp add: PY_SSIZE_T_MAX_def)
  have h5: "64 + nat 2 \<le> length ?bs" by simp
  have t: "take 64 ?bs = ''2'' @ replicate 63 (CHR '' '')" by simp
  have d: "take (nat 2) (drop 64 ?bs) = ''hi''" by simp
  from two_step_read [OF h1 h2 h3 h4 h5, of peer] h1 h2 h3 h4 h5 show ?thesis
    unfolding t d by blast
qed

text \<open>
  C4, as stated, fails.  The header \<^verbatim>\<open>1_0\<close> padded to 64 bytes is not a non-negative
  decimal integer followed by padding, yet \<^verbatim>\<open>int\<close> gives 10 and the handler reads, logs
  and acknowledges ten bytes.  And for the header \<^verbatim>\<open>-5\<close> the decoding does not fail
  either: it gives the length \<open>-5\<close>.
\<close>

theorem header_literal_counterexample:
  "utf8_decode (''1_0'' @ replicate 61 (CHR '' '')) =
     Inr (map of_char (''1_0'' @ replicate 61 (CHR '' ''))) \<and>
   \<not> spec_decimal (map of_char (''1_0'' @ replicate 61 (CHR '' ''))) \<and>
   decode_header latin1_db (''1_0'' @ replicate 61 (CHR '' '')) = Inr (Some 10) \<and>
   handle_client latin1_db peer
     \<lparr>rx = [Data (''1_0'' @ replicate 61 (CHR '' '') @ ''0123456789''), Eof], tx = []\<rparr> =
   Normal ()
     [Print (NewConnection peer),
      Recv HEADER (Inr (''1_0'' @ replicate 61 (CHR '' ''))), Recv 10 (Inr ''0123456789''),
      Print (Received peer (map of_char ''0123456789'')), Send ''Message received'' None,
      Recv HEADER (Inr []), Print (Closing peer), Close]
     \<lparr>rx = [Eof], tx = []\<rparr> \<and>
   decode_header latin1_db (''-5'' @ replicate 62 (CHR '' '')) = Inr (Some (- 5))"
proof -
  have u: "utf8_decode (''1_0'' @ replicate 61 (CHR '' '')) =
     Inr (map of_char (''1_0'' @ replicate 61 (CHR '' '')))" by code_simp
  have s: "\<not> spec_decimal (map of_char (''1_0'' @ replicate 61 (CHR '' '')))" by code_simp
  have d: "decode_header latin1_db (''1_0'' @ replicate 61 (CHR '' '')) = Inr (Some 10)"
    by code_simp
  have m: "decode_header latin1_db (''-5'' @ replicate 62 (CHR '' '')) = Inr (Some (- 5))"
    by code_simp
  have r1: "recv HEADER
      \<lparr>rx = [Data (''1_0'' @ replicate 61 (CHR '' '') @ ''0123456789''), Eof], tx = []\<rparr>
      = Returns (''1_0'' @ replicate 61 (CHR '' ''))
          \<lparr>rx = [Data ''0123456789'', Eof], tx = []\<rparr>"
    by (simp add: recv_def HEADER_def PY_SSIZE_T_MAX_def)
  have r2: "recv 10 \<lparr>rx = [Data ''0123456789'', Eof], tx = []\<rparr>
      = Returns ''0123456789'' \<lparr>rx = [Eof], tx = []\<rparr>"
    by (simp add: recv_def PY_SSIZE_T_MAX_def)
  have p: "utf8_decode ''0123456789'' = Inr (map of_char ''0123456789'')" by code_simp
  have n: "map of_char ''0123456789'' \<noteq> MSG_DISCONNECT" by code_simp
  have i: "iteration latin1_db peer
      \<lparr>rx = [Data (''1_0'' @ replicate 61 (CHR '' '') @ ''0123456789''), Eof], tx = []\<rparr> =
     Normal True
       [Recv HEADER (Inr (''1_0'' @ replicate 61 (CHR '' ''))), Recv 10 (Inr ''0123456789''),
        Print (Received peer (map of_char ''0123456789'')), Send ''Message received'' None]
       \<lparr>rx = [Eof], tx = []\<rparr>"
    using iteration_frame [OF r1 d r2 p _ sock_send_free, of peer] n
    by (simp add: printable_latin1)
  have e: "recv HEADER \<lparr>rx = [Eof], tx = []\<rparr> = Returns [] \<lparr>rx = [Eof], tx = []\<rparr>"
    by (simp add: recv_def HEADER_def PY_SSIZE_T_MAX_def)
  have h: "handle_client latin1_db peer
     \<lparr>rx = [Data (''1_0'' @ replicate 61 (CHR '' '') @ ''0123456789''), Eof], tx = []\<rparr> =
   Normal ()
     [Print (NewConnection peer),
      Recv HEADER (Inr (''1_0'' @ replicate 61 (CHR '' ''))), Recv 10 (Inr ''0123456789''),
      Print (Received peer (map of_char ''0123456789'')), Send ''Message received'' None,
      Recv HEADER (Inr []), Print (Closing peer), Close]
     \<lparr>rx = [Eof], tx = []\<rparr>"
    using handle_client_stop [OF passes_one [OF i] iteration_eof [OF e]] by simp
  show ?thesis by (intro conjI u s d h m)
qed

text \<open>
  C4, amended.  The bytes of a header read are decoded as UTF-8 and the text, when it is
  not empty, is converted by \<^verbatim>\<open>int\<close>.  The conversion gives a length for exactly the texts
  that, once every white-space character above ASCII is taken as a space and every
  decimal digit above ASCII as its ASCII digit, are literals of the grammar above: white
  space, an optional sign, digits with single underscores between them, white space.
  The length is the value of the literal; for digits followed by space padding it is the
  number that the digits denote.  Every other header fails: bytes that are not UTF-8,
  a character above ASCII that is neither white space nor a digit, a text that is not a
  literal (a letter, no digit at all, two signs, an underscore out of place, anything
  after the digits but white space).  The failure is a \<^verbatim>\<open>ValueError\<close> and the handler
  takes its invalid-header branch.  A negative length is accepted by \<^verbatim>\<open>int\<close> but not by
  the handler: \<^verbatim>\<open>recv\<close> with a negative size raises \<^verbatim>\<open>ValueError\<close> and the same branch is
  taken, so every message the handler logs comes with a length that is not negative.
\<close>

theorem header_decoding:
  assumes "recv HEADER w = Returns b w1"
  shows "decode_header U b =
           (case utf8_decode b of
              Inl e \<Rightarrow> Inl UnicodeDecodeError
            | Inr h \<Rightarrow>
                if h = [] then Inr None
                else (case transform_to_ascii U h of
                        None \<Rightarrow> Inl ValueError
                      | Some a \<Rightarrow>
                          if int_literal a then Inr (Some (literal_value a))
                          else Inl ValueError)) \<and>
         (\<forall>h. utf8_decode b = Inr h \<longrightarrow> h \<noteq> [] \<longrightarrow> list_all (\<lambda>c. c < 127) h \<longrightarrow>
            decode_header U b =
              (if int_literal h then Inr (Some (literal_value h)) else Inl ValueError)) \<and>
         (\<forall>h. utf8_decode b = Inr h \<longrightarrow> spec_decimal h \<longrightarrow>
            decode_header U b = Inr (Some (int (spec_value h)))) \<and>
         (\<forall>e. decode_header U b = Inl e \<longrightarrow>
            isinstance_ValueError e \<and>
            iteration U addr w =
              Normal False [Recv HEADER (Inr b), Print (ErrorInvalidHeader addr)] w1) \<and>
         (\<forall>n. decode_header U b = Inr (Some n) \<longrightarrow> n < 0 \<longrightarrow>
            iteration U addr w =
              Normal False
                [Recv HEADER (Inr b), Recv n (Inl ValueError),
                 Print (ErrorInvalidHeader addr)] w1) \<and>
         (\<forall>msg. Print (Received addr msg) \<in> set (trace (iteration U addr w)) \<longrightarrow>
            (\<exists>n. 0 \<le> n \<and> decode_header U b = Inr (Some n)))"
proof -
  have ev: "except_line addr ValueError = ErrorInvalidHeader addr"
    by (simp add: except_line_def isinstance_ValueError_def)
  have g: "decode_header U b =
           (case utf8_decode b of
              Inl e \<Rightarrow> Inl UnicodeDecodeError
            | Inr h \<Rightarrow>
                if h = [] then Inr None
                else (case transform_to_ascii U h of
                        None \<Rightarrow> Inl ValueError
                      | Some a \<Rightarrow>
                          if int_literal a then Inr (Some (literal_value a))
                          else Inl ValueError))"
  proof (cases "utf8_decode b")
    case (Inl e)
    from utf8_decode_Inl [OF Inl] Inl show ?thesis by (simp add: decode_header_def)
  next
    case (Inr h)
    then show ?thesis
      by (simp add: decode_header_def py_int_literal split: option.splits)
  qed
  have l: "decode_header U b =
              (if int_literal h then Inr (Some (literal_value h)) else Inl ValueError)"
    if "utf8_decode b = Inr h" "h \<noteq> []" "list_all (\<lambda>c. c < 127) h" for h
  proof -
    from that(3) have "\<forall>c \<in> set h. c < 127" by (simp add: list_all_iff)
    from transform_ascii [OF this, of U] that(1,2) show ?thesis by (simp add: g)
  qed
  have a: "decode_header U b = Inr (Some (int (spec_value h)))"
    if "utf8_decode b = Inr h" "spec_decimal h" for h
    using that by (simp add: decode_header_def py_int_spec_decimal spec_decimal_nonempty)
  have b: "isinstance_ValueError e \<and>
      iteration U addr w = Normal False [Recv HEADER (Inr b), Print (ErrorInvalidHeader addr)] w1"
    if "decode_header U b = Inl e" for e
  proof -
    from decode_header_Inl [OF that] have iv: "isinstance_ValueError e" .
    then have "e \<noteq> ConnectionResetError" by (auto simp: isinstance_ValueError_def)
    with iv have "except_line addr e = ErrorInvalidHeader addr" by (simp add: except_line_def)
    with iteration_bad_header [OF assms that, of addr] iv show ?thesis by simp
  qed
  have c: "iteration U addr w =
      Normal False
        [Recv HEADER (Inr b), Recv n (Inl ValueError), Print (ErrorInvalidHeader addr)] w1"
    if "decode_header U b = Inr (Some n)" "n < 0" for n
    using iteration_payload_Raises [OF assms that(1) recv_negative [OF that(2)], of addr]
    by (simp add: ev)
  have d: "\<exists>n. 0 \<le> n \<and> decode_header U b = Inr (Some n)"
    if "Print (Received addr msg) \<in> set (trace (iteration U addr w))" for msg
    using assms that by (rule Received_in_trace)
  show ?thesis
  proof (intro conjI allI impI)
    show "decode_header U b =
           (case utf8_decode b of
              Inl e \<Rightarrow> Inl UnicodeDecodeError
            | Inr h \<Rightarrow>
                if h = [] then Inr None
                else (case transform_to_ascii U h of
                        None \<Rightarrow> Inl ValueError
                      | Some a \<Rightarrow>
                          if int_literal a then Inr (Some (literal_value a))
                          else Inl ValueError))" by (rule g)
  next
    fix h assume "utf8_decode b = Inr h" "h \<noteq> []" "list_all (\<lambda>c. c < 127) h"
    then show "decode_header U b =
        (if int_literal h then Inr (Some (literal_value h)) else Inl ValueError)" by (rule l)
  next
    fix h assume "utf8_decode b = Inr h" "spec_decimal h"
    then show "decode_header U b = Inr (Some (int (spec_value h)))" by (rule a)
  next
    fix e assume e: "decode_header U b = Inl e"
    from b [OF e] show "isinstance_ValueError e" by (rule conjunct1)
    from b [OF e] show "iteration U addr w =
        Normal False [Recv HEADER (Inr b), Print (ErrorInvalidHeader addr)] w1"
      by (rule conjunct2)
  next
    fix n assume "decode_header U b = Inr (Some n)" "n < 0"
    then show "iteration U addr w =
        Normal False
          [Recv HEADER (Inr b), Recv n (Inl ValueError), Print (ErrorInvalidHeader addr)] w1"
      by (rule c)
  next
    fix msg assume "Print (Received addr msg) \<in> set (trace (iteration U addr w))"
    then show "\<exists>n. 0 \<le> n \<and> decode_header U b = Inr (Some n)" by (rule d)
  qed
qed

theorem header_decoding_witness:
  "recv HEADER \<lparr>rx = [Data (''-5'' @ replicate 62 (CHR '' '')), Eof], tx = []\<rparr> =
     Returns (''-5'' @ replicate 62 (CHR '' '')) \<lparr>rx = [Eof], tx = []\<rparr> \<and>
   decode_header latin1_db (''-5'' @ replicate 62 (CHR '' '')) = Inr (Some (- 5)) \<and>
   (- 5 :: int) < 0 \<and>
   iteration latin1_db peer \<lparr>rx = [Data (''-5'' @ replicate 62 (CHR '' '')), Eof], tx = []\<rparr> =
     Normal False
       [Recv HEADER (Inr (''-5'' @ replicate 62 (CHR '' ''))), Recv (- 5) (Inl ValueError),
        Print (ErrorInvalidHeader peer)]
       \<lparr>rx = [Eof], tx = []\<rparr> \<and>
   recv HEADER \<lparr>rx = [Data (''12abc'' @ replicate 59 (CHR '' ''))], tx = []\<rparr> =
     Returns (''12abc'' @ replicate 59 (CHR '' '')) \<lparr>rx = [], tx = []\<rparr> \<and>
   utf8_decode (''12abc'' @ replicate 59 (CHR '' '')) =
     Inr (map of_char ''12abc'' @ replicate 59 0x20) \<and>
   map of_char ''12abc'' @ replicate 59 0x20 \<noteq> ([] :: nat list) \<and>
   list_all (\<lambda>c. c < (127 :: nat)) (map of_char ''12abc'' @ replicate 59 0x20) \<and>
   \<not> int_literal (map of_char ''12abc'' @ replicate 59 0x20) \<and>
   decode_header latin1_db (''12abc'' @ replicate 59 (CHR '' '')) = Inl ValueError \<and>
   isinstance_ValueError ValueError \<and>
   iteration latin1_db peer \<lparr>rx = [Data (''12abc'' @ replicate 59 (CHR '' ''))], tx = []\<rparr> =
     Normal False
       [Recv HEADER (Inr (''12abc'' @ replicate 59 (CHR '' ''))),
        Print (ErrorInvalidHeader peer)]
       \<lparr>rx = [], tx = []\<rparr> \<and>
   recv HEADER \<lparr>rx = [Data (''1_0'' @ replicate 61 (CHR '' ''))], tx = []\<rparr> =
     Returns (''1_0'' @ replicate 61 (CHR '' '')) \<lparr>rx = [], tx = []\<rparr> \<and>
   utf8_decode (''1_0'' @ replicate 61 (CHR '' '')) =
     Inr (map of_char ''1_0'' @ replicate 61 0x20) \<and>
   list_all (\<lambda>c. c < (127 :: nat)) (map of_char ''1_0'' @ replicate 61 0x20) \<and>
   int_literal (map of_char ''1_0'' @ replicate 61 0x20) \<and>
   literal_value (map of_char ''1_0'' @ replicate 61 0x20) = 10 \<and>
   decode_header latin1_db (''1_0'' @ replicate 61 (CHR '' '')) = Inr (Some 10) \<and>
   recv HEADER \<lparr>rx = [Data (''5'' @ replicate 63 (CHR '' ''))], tx = []\<rparr> =
     Returns (''5'' @ replicate 63 (CHR '' '')) \<lparr>rx = [], tx = []\<rparr> \<and>
   utf8_decode (''5'' @ replicate 63 (CHR '' '')) = Inr (0x35 # replicate 63 0x20) \<and>
   spec_decimal (0x35 # replicate 63 0x20) \<and>
   decode_header latin1_db (''5'' @ replicate 63 (CHR '' '')) =
     Inr (Some (int (spec_value (0x35 # replicate 63 0x20)))) \<and>
   spec_value (0x35 # replicate 63 0x20) = 5 \<and>
   Print (Received peer (map of_char ''hi'')) \<in>
     set (trace (iteration latin1_db peer
                   \<lparr>rx = [Data (''2'' @ replicate 63 (CHR '' '') @ ''hi'')], tx = []\<rparr>)) \<and>
   (\<exists>n\<ge>0. decode_header latin1_db (''2'' @ replicate 63 (CHR '' '')) = Inr (Some n))"
proof -
  have r1: "recv HEADER \<lparr>rx = [Data (''-5'' @ replicate 62 (CHR '' '')), Eof], tx = []\<rparr> =
     Returns (''-5'' @ replicate 62 (CHR '' '')) \<lparr>rx = [Eof], tx = []\<rparr>"
    by (simp add: recv_def HEADER_def PY_SSIZE_T_MAX_def)
  have d1: "decode_header latin1_db (''-5'' @ replicate 62 (CHR '' '')) = Inr (Some (- 5))"
    by code_simp
  have n1: "(- 5 :: int) < 0" by simp
  have i1: "iteration latin1_db peer
       \<lparr>rx = [Data (''-5'' @ replicate 62 (CHR '' '')), Eof], tx = []\<rparr> =
     Normal False
       [Recv HEADER (Inr (''-5'' @ replicate 62 (CHR '' ''))), Recv (- 5) (Inl ValueError),
        Print (ErrorInvalidHeader peer)]
       \<lparr>rx = [Eof], tx = []\<rparr>"
    using header_decoding [OF r1, of latin1_db peer, THEN conjunct2, THEN conjunct2,
        THEN conjunct2, THEN conjunct2, THEN conjunct1, rule_format, OF d1 n1] .
  have r2: "recv HEADER \<lparr>rx = [Data (''12abc'' @ replicate 59 (CHR '' ''))], tx = []\<rparr> =
     Returns (''12abc'' @ replicate 59 (CHR '' '')) \<lparr>rx = [], tx = []\<rparr>"
    by (simp add: recv_def HEADER_def PY_SSIZE_T_MAX_def)
  have u2: "utf8_decode (''12abc'' @ replicate 59 (CHR '' '')) =
     Inr (map of_char ''12abc'' @ replicate 59 0x20)" by code_simp
  have e2: "map of_char ''12abc'' @ replicate 59 0x20 \<noteq> ([] :: nat list)" by simp
  have a2: "list_all (\<lambda>c. c < (127 :: nat)) (map of_char ''12abc'' @ replicate 59 0x20)"
    by (simp add: list_all_iff)
  have l2: "\<not> int_literal (map of_char ''12abc'' @ replicate 59 0x20)" by code_simp
  note h2 = header_decoding [OF r2, of latin1_db peer]
  have d2: "decode_header latin1_db (''12abc'' @ replicate 59 (CHR '' '')) = Inl ValueError"
    using h2 [THEN conjunct2, THEN conjunct1, THEN spec, THEN mp, THEN mp, THEN mp,
        OF u2 e2 a2] l2 by simp
  note f2 = h2 [THEN conjunct2, THEN conjunct2, THEN conjunct2, THEN conjunct1,
      rule_format, OF d2]
  have v2: "isinstance_ValueError ValueError" using f2 by (rule conjunct1)
  have i2: "iteration latin1_db peer
        \<lparr>rx = [Data (''12abc'' @ replicate 59 (CHR '' ''))], tx = []\<rparr> =
     Normal False
       [Recv HEADER (Inr (''12abc'' @ replicate 59 (CHR '' ''))),
        Print (ErrorInvalidHeader peer)]
       \<lparr>rx = [], tx = []\<rparr>"
    using f2 by (rule conjunct2)
  have r5: "recv HEADER \<lparr>rx = [Data (''1_0'' @ replicate 61 (CHR '' ''))], tx = []\<rparr> =
     Returns (''1_0'' @ replicate 61 (CHR '' '')) \<lparr>rx = [], tx = []\<rparr>"
    by (simp add: recv_def HEADER_def PY_SSIZE_T_MAX_def)
  have u5: "utf8_decode (''1_0'' @ replicate 61 (CHR '' '')) =
     Inr (map of_char ''1_0'' @ replicate 61 0x20)" by code_simp
  have e5: "map of_char ''1_0'' @ replicate 61 0x20 \<noteq> ([] :: nat list)" by simp
  have a5: "list_all (\<lambda>c. c < (127 :: nat)) (map of_char ''1_0'' @ replicate 61 0x20)"
    by (simp add: list_all_iff)
  have l5: "int_literal (map of_char ''1_0'' @ replicate 61 0x20)" by code_simp
  have v5: "literal_value (map of_char ''1_0'' @ replicate 61 0x20) = 10" by code_simp
  have d5: "decode_header latin1_db (''1_0'' @ replicate 61 (CHR '' '')) = Inr (Some 10)"
    using header_decoding [OF r5, of latin1_db peer, THEN conjunct2, THEN conjunct1,
        THEN spec, THEN mp, THEN mp, THEN mp, OF u5 e5 a5] l5 v5 by simp
  have r3: "recv HEADER \<lparr>rx = [Data (''5'' @ replicate 63 (CHR '' ''))], tx = []\<rparr> =
     Returns (''5'' @ replicate 63 (CHR '' '')) \<lparr>rx = [], tx = []\<rparr>"
    by (simp add: recv_def HEADER_def PY_SSIZE_T_MAX_def)
  have u3: "utf8_decode (''5'' @ replicate 63 (CHR '' '')) = Inr (0x35 # replicate 63 0x20)"
    by code_simp
  have s3: "spec_decimal (0x35 # replicate 63 0x20)" by code_simp
  have v3: "spec_value (0x35 # replicate 63 0x20) = 5" by code_simp
  have d3: "decode_header latin1_db (''5'' @ replicate 63 (CHR '' '')) =
     Inr (Some (int (spec_value (0x35 # replicate 63 0x20))))"
    using header_decoding [OF r3, of latin1_db peer, THEN conjunct2, THEN conjunct2,
        THEN conjunct1, rule_format, OF u3 s3] .
  have r4: "recv HEADER \<lparr>rx = [Data (''2'' @ replicate 63 (CHR '' '') @ ''hi'')], tx = []\<rparr>
      = Returns (''2'' @ replicate 63 (CHR '' '')) \<lparr>rx = [Data ''hi''], tx = []\<rparr>"
    by (simp add: recv_def HEADER_def PY_SSIZE_T_MAX_def)
  have d4: "decode_header latin1_db (''2'' @ replicate 63 (CHR '' '')) = Inr (Some 2)"
    by code_simp
  have p4: "recv 2 \<lparr>rx = [Data ''hi''], tx = []\<rparr> = Returns ''hi'' \<lparr>rx = [], tx = []\<rparr>"
    by (simp add: recv_def PY_SSIZE_T_MAX_def)
  have u4: "utf8_decode ''hi'' = Inr (map of_char ''hi'')" by code_simp
  have q4: "printable latin1_db (map of_char ''hi'')" by (rule printable_latin1) simp
  have m4: "Print (Received peer (map of_char ''hi'')) \<in>
     set (trace (iteration latin1_db peer
                   \<lparr>rx = [Data (''2'' @ replicate 63 (CHR '' '') @ ''hi'')], tx = []\<rparr>))"
    unfolding iteration_frame [OF r4 d4 p4 u4 q4 sock_send_free, of peer] by simp
  have e4: "\<exists>n\<ge>0. decode_header latin1_db (''2'' @ replicate 63 (CHR '' '')) = Inr (Some n)"
    using header_decoding [OF r4, of latin1_db peer, THEN conjunct2, THEN conjunct2,
        THEN conjunct2, THEN conjunct2, THEN conjunct2, rule_format, OF m4] by blast
  show ?thesis
    by (intro conjI r1 d1 n1 i1 r2 u2 e2 a2 l2 d2 v2 i2 r5 u5 a5 l5 v5 d5 r3 u3 s3 d3 v3 m4 e4)
qed

section \<open>The handler: leaving the loop\<close>

text \<open>
  C5.  At any pass of the loop (after any number \<open>k\<close> of passes that left the handler
  connected), when the header read returns zero bytes the handler does nothing more
  than leave the loop, print its closing line and close the connection: no error line,
  no further \<^verbatim>\<open>recv\<close> or \<^verbatim>\<open>send\<close>, and no exception.
\<close>

theorem peer_closed_cleanly:
  assumes "passes U addr k w0 = Some (acts, w)"
    and "recv HEADER w = Returns [] w'"
  shows "handle_client U addr w0 =
           Normal ()
             (Print (NewConnection addr) # acts @
                [Recv HEADER (Inr []), Print (Closing addr), Close]) w'"
  using handle_client_stop [OF assms(1) iteration_eof [OF assms(2)]] by simp

theorem peer_closed_cleanly_witness:
  "passes latin1_db peer (Suc 0)
      \<lparr>rx = [Data (''2'' @ replicate 63 (CHR '' '') @ ''hi''), Eof], tx = []\<rparr>
     = Some ([Recv HEADER (Inr (''2'' @ replicate 63 (CHR '' ''))), Recv 2 (Inr ''hi''),
              Print (Received peer (map of_char ''hi'')), Send ''Message received'' None],
             \<lparr>rx = [Eof], tx = []\<rparr>) \<and>
   recv HEADER \<lparr>rx = [Eof], tx = []\<rparr> = Returns [] \<lparr>rx = [Eof], tx = []\<rparr> \<and>
   handle_client latin1_db peer
       \<lparr>rx = [Data (''2'' @ replicate 63 (CHR '' '') @ ''hi''), Eof], tx = []\<rparr> =
     Normal ()
       [Print (NewConnection peer),
        Recv HEADER (Inr (''2'' @ replicate 63 (CHR '' ''))), Recv 2 (Inr ''hi''),
        Print (Received peer (map of_char ''hi'')), Send ''Message received'' None,
        Recv HEADER (Inr []), Print (Closing peer), Close]
       \<lparr>rx = [Eof], tx = []\<rparr>"
proof -
  have r: "recv HEADER \<lparr>rx = [Eof], tx = []\<rparr> = Returns [] \<lparr>rx = [Eof], tx = []\<rparr>"
    by (simp add: recv_def HEADER_def PY_SSIZE_T_MAX_def)
  from peer_closed_cleanly [OF hi_pass r] hi_pass r show ?thesis by simp
qed

text \<open>
  C6.  At any pass of the loop, when the body of the \<^verbatim>\<open>try\<close> raises an exception \<open>e\<close>
  (from \<^verbatim>\<open>recv\<close>, \<^verbatim>\<open>decode\<close>, \<^verbatim>\<open>int\<close>, \<^verbatim>\<open>print\<close> or \<^verbatim>\<open>send\<close>), the handler prints the line of the
  \<^verbatim>\<open>except\<close> clause that matches \<open>e\<close>, leaves the loop, prints its closing line and
  closes the connection: nothing else follows, and \<^verbatim>\<open>close\<close> is called exactly once in
  the whole run.  On no script at all does an exception leave \<^verbatim>\<open>handle_client\<close>.
  (The lines of the \<^verbatim>\<open>except\<close> clauses, the closing line and \<^verbatim>\<open>close\<close> are taken not to
  raise.)
\<close>

theorem errors_contained:
  assumes "passes U addr k w0 = Some (acts, w)"
    and "try_body U addr w = Raise e acts' w'"
  shows "handle_client U addr w0 =
           Normal ()
             (Print (NewConnection addr) # acts @ acts' @
                [Print (except_line addr e), Print (Closing addr), Close]) w' \<and>
         (except_line addr e = ErrorReset addr \<or>
          except_line addr e = ErrorInvalidHeader addr \<or>
          except_line addr e = UnexpectedError addr e) \<and>
         count_list (trace (handle_client U addr w0)) Close = 1 \<and>
         (\<forall>v e' tr v'. handle_client U addr v \<noteq> Raise e' tr v')"
proof -
  have h: "handle_client U addr w0 =
           Normal ()
             (Print (NewConnection addr) # acts @ acts' @
                [Print (except_line addr e), Print (Closing addr), Close]) w'"
    using handle_client_stop [OF assms(1) iteration_Raise [OF assms(2)]] by simp
  have c: "count_list (trace (handle_client U addr w0)) Close = 1"
    using handle_client_close_once [OF h] by (simp add: h)
  have n: "handle_client U addr v \<noteq> Raise e' tr v'" for v e' tr v'
    using handle_client_cases [of U addr v] by auto
  show ?thesis using h c n by (simp add: except_line_def)
qed

theorem errors_contained_witness:
  "passes latin1_db peer (Suc 0)
      \<lparr>rx = [Data (''2'' @ replicate 63 (CHR '' '') @ ''hi''), Fail ConnectionResetError],
       tx = []\<rparr>
     = Some ([Recv HEADER (Inr (''2'' @ replicate 63 (CHR '' ''))), Recv 2 (Inr ''hi''),
              Print (Received peer (map of_char ''hi'')), Send ''Message received'' None],
             \<lparr>rx = [Fail ConnectionResetError], tx = []\<rparr>) \<and>
   try_body latin1_db peer \<lparr>rx = [Fail ConnectionResetError], tx = []\<rparr> =
     Raise ConnectionResetError [Recv HEADER (Inl ConnectionResetError)] \<lparr>rx = [], tx = []\<rparr> \<and>
   handle_client latin1_db peer
       \<lparr>rx = [Data (''2'' @ replicate 63 (CHR '' '') @ ''hi''), Fail ConnectionResetError],
        tx = []\<rparr> =
     Normal ()
       [Print (NewConnection peer),
        Recv HEADER (Inr (''2'' @ replicate 63 (CHR '' ''))), Recv 2 (Inr ''hi''),
        Print (Received peer (map of_char ''hi'')), Send ''Message received'' None,
        Recv HEADER (Inl ConnectionResetError), Print (ErrorReset peer),
        Print (Closing peer), Close]
       \<lparr>rx = [], tx = []\<rparr>"
proof -
  have t: "try_body latin1_db peer \<lparr>rx = [Fail ConnectionResetError], tx = []\<rparr> =
     Raise ConnectionResetError [Recv HEADER (Inl ConnectionResetError)] \<lparr>rx = [], tx = []\<rparr>"
    by (simp add: try_body_def recv_def HEADER_def PY_SSIZE_T_MAX_def)
  from errors_contained [OF hi_pass t] hi_pass t show ?thesis
    by (simp add: except_line_def)
qed

section \<open>The client loop\<close>



text \<open>
  C8, as stated, fails.  When \<^verbatim>\<open>input\<close> raises \<^verbatim>\<open>EOFError\<close> (the operator closes the
  input), or when a call on the socket raises an exception other than the two that
  \<^verbatim>\<open>send\<close> handles (here \<^verbatim>\<open>recv\<close> raises \<^verbatim>\<open>TimeoutError\<close>), nothing catches the exception:
  it leaves the loop and the script, and \<^verbatim>\<open>client.close()\<close> on line 98 is not reached.
\<close>

theorem client_close_counterexample:
  "client_main [InputFails EOFError] \<lparr>rx = [], tx = []\<rparr> =
     Raise EOFError [Print Banner, Input (Inl EOFError)] \<lparr>rx = [], tx = []\<rparr> \<and>
   count_list [Print Banner, Input (Inl EOFError)] Close = 0 \<and>
   client_main [Line (map of_char ''hi''), Line MSG_DISCONNECT]
       \<lparr>rx = [Fail (OtherError ''TimeoutError'')], tx = []\<rparr> =
     Raise (OtherError ''TimeoutError'')
       [Print Banner, Input (Inr (map of_char ''hi'')),
        Send (''2'' @ replicate 63 (CHR '' '')) None, Send ''hi'' None,
        Recv 2048 (Inl (OtherError ''TimeoutError''))]
       \<lparr>rx = [], tx = []\<rparr> \<and>
   count_list
       [Print Banner, Input (Inr (map of_char ''hi'')),
        Send (''2'' @ replicate 63 (CHR '' '')) None, Send ''hi'' None,
        Recv 2048 (Inl (OtherError ''TimeoutError''))] Close = 0"
proof -
  have a: "client_main [InputFails EOFError] \<lparr>rx = [], tx = []\<rparr> =
     Raise EOFError [Print Banner, Input (Inl EOFError)] \<lparr>rx = [], tx = []\<rparr>"
    by (simp add: client_main_def)
  have r: "recv 2048 \<lparr>rx = [Fail (OtherError ''TimeoutError'')], tx = []\<rparr> =
      Raises (OtherError ''TimeoutError'') \<lparr>rx = [], tx = []\<rparr>"
    by (simp add: recv_def PY_SSIZE_T_MAX_def)
  have s: "send (map of_char ''hi'') \<lparr>rx = [Fail (OtherError ''TimeoutError'')], tx = []\<rparr> =
      Raise (OtherError ''TimeoutError'')
        [Send (''2'' @ replicate 63 (CHR '' '')) None, Send ''hi'' None,
         Recv 2048 (Inl (OtherError ''TimeoutError''))]
        \<lparr>rx = [], tx = []\<rparr>"
    by (rule send_recv_Raises [OF hi_frame sock_send_free sock_send_free r]) simp_all
  have n: "map of_char ''hi'' \<noteq> ([] :: nat list)" by simp
  have b: "client_main [Line (map of_char ''hi''), Line MSG_DISCONNECT]
       \<lparr>rx = [Fail (OtherError ''TimeoutError'')], tx = []\<rparr> =
     Raise (OtherError ''TimeoutError'')
       [Print Banner, Input (Inr (map of_char ''hi'')),
        Send (''2'' @ replicate 63 (CHR '' '')) None, Send ''hi'' None,
        Recv 2048 (Inl (OtherError ''TimeoutError''))]
       \<lparr>rx = [], tx = []\<rparr>"
    unfolding client_main_def send_Raise [OF s n] by simp
  show ?thesis by (intro conjI a b) simp_all
qed

text \<open>
  C8, amended.  On every run of the client the socket is closed at most once.  When the
  loop ends by one of its two \<^verbatim>\<open>break\<close> statements (\<^verbatim>\<open>send\<close> returned false after a
  \<^verbatim>\<open>ConnectionResetError\<close> or \<^verbatim>\<open>BrokenPipeError\<close>, or the line \<^verbatim>\<open>!Disconnect\<close> was sent) the
  script prints its closing line and closes the socket exactly once, as its last action.
  When an exception leaves the loop, or the script hangs in a blocking call, \<^verbatim>\<open>close\<close> is
  not called.  An exception that \<^verbatim>\<open>send\<close> raises itself leaves the loop.
\<close>

theorem client_close:
  "(case client_main ins w of
      Normal u tr w' \<Rightarrow> count_list tr Close = 1 \<and> last tr = Close
    | Raise e tr w' \<Rightarrow> count_list tr Close = 0
    | Block tr \<Rightarrow> count_list tr Close = 0) \<and>
   (\<forall>message acts v'. message \<noteq> [] \<longrightarrow> send message v = Normal False acts v' \<longrightarrow>
      client_main (Line message # ins') v =
        Normal () (Print Banner # Input (Inr message) # acts @ [Print ClosingClient, Close]) v') \<and>
   (\<forall>ok acts v'. send MSG_DISCONNECT v = Normal ok acts v' \<longrightarrow>
      client_main (Line MSG_DISCONNECT # ins') v =
        Normal ()
          (Print Banner # Input (Inr MSG_DISCONNECT) # acts @ [Print ClosingClient, Close]) v') \<and>
   (\<forall>message e acts v'. message \<noteq> [] \<longrightarrow> send message v = Raise e acts v' \<longrightarrow>
      client_main (Line message # ins') v =
        Raise e (Print Banner # Input (Inr message) # acts) v')"
proof -
  have nc: "count_list (trace (main_loop ins w)) Close = 0"
    using main_loop_no_Close [of ins w] by (simp add: count_list_0_iff)
  have a: "(case client_main ins w of
      Normal u tr w' \<Rightarrow> count_list tr Close = 1 \<and> last tr = Close
    | Raise e tr w' \<Rightarrow> count_list tr Close = 0
    | Block tr \<Rightarrow> count_list tr Close = 0)"
    using nc by (cases "main_loop ins w") (simp_all add: client_main_def)
  have b: "client_main (Line message # ins') v =
        Normal () (Print Banner # Input (Inr message) # acts @ [Print ClosingClient, Close]) v'"
    if "message \<noteq> []" "send message v = Normal False acts v'" for message acts v'
    unfolding client_main_def send_False [OF that(2,1)] by simp
  have c: "client_main (Line MSG_DISCONNECT # ins') v =
        Normal ()
          (Print Banner # Input (Inr MSG_DISCONNECT) # acts @ [Print ClosingClient, Close]) v'"
    if "send MSG_DISCONNECT v = Normal ok acts v'" for ok acts v'
    unfolding client_main_def main_loop_sentinel that by simp
  have d: "client_main (Line message # ins') v =
        Raise e (Print Banner # Input (Inr message) # acts) v'"
    if "message \<noteq> []" "send message v = Raise e acts v'" for message e acts v'
    unfolding client_main_def send_Raise [OF that(2,1)] by simp
  show ?thesis using a b c d by blast
qed

theorem client_close_witness:
  "(map of_char ''hi'' :: nat list) \<noteq> [] \<and>
   send (map of_char ''hi'') \<lparr>rx = [], tx = [Refuse BrokenPipeError]\<rparr> =
     Normal False
       [Send (''2'' @ replicate 63 (CHR '' '')) (Some BrokenPipeError), Print ErrorLost]
       \<lparr>rx = [], tx = []\<rparr> \<and>
   client_main [Line (map of_char ''hi'')] \<lparr>rx = [], tx = [Refuse BrokenPipeError]\<rparr> =
     Normal ()
       [Print Banner, Input (Inr (map of_char ''hi'')),
        Send (''2'' @ replicate 63 (CHR '' '')) (Some BrokenPipeError), Print ErrorLost,
        Print ClosingClient, Close]
       \<lparr>rx = [], tx = []\<rparr> \<and>
   send MSG_DISCONNECT \<lparr>rx = [Data ''Message received''], tx = []\<rparr> =
     Normal True
       [Send (''11'' @ replicate 62 (CHR '' '')) None, Send ''!Disconnect'' None,
        Recv 2048 (Inr ''Message received''), Print (Server ACK)]
       \<lparr>rx = [], tx = []\<rparr> \<and>
   client_main [Line MSG_DISCONNECT] \<lparr>rx = [Data ''Message received''], tx = []\<rparr> =
     Normal ()
       [Print Banner, Input (Inr MSG_DISCONNECT),
        Send (''11'' @ replicate 62 (CHR '' '')) None, Send ''!Disconnect'' None,
        Recv 2048 (Inr ''Message received''), Print (Server ACK),
        Print ClosingClient, Close]
       \<lparr>rx = [], tx = []\<rparr> \<and>
   send (map of_char ''hi'') \<lparr>rx = [Fail (OtherError ''TimeoutError'')], tx = []\<rparr> =
     Raise (OtherError ''TimeoutError'')
       [Send (''2'' @ replicate 63 (CHR '' '')) None, Send ''hi'' None,
        Recv 2048 (Inl (OtherError ''TimeoutError''))]
       \<lparr>rx = [], tx = []\<rparr> \<and>
   client_main [Line (map of_char ''hi'')] \<lparr>rx = [Fail (OtherError ''TimeoutError'')], tx = []\<rparr> =
     Raise (OtherError ''TimeoutError'')
       [Print Banner, Input (Inr (map of_char ''hi'')),
        Send (''2'' @ replicate 63 (CHR '' '')) None, Send ''hi'' None,
        Recv 2048 (Inl (OtherError ''TimeoutError''))]
       \<lparr>rx = [], tx = []\<rparr>"
proof -
  let ?v1 = "\<lparr>rx = [], tx = [Refuse BrokenPipeError]\<rparr>"
  let ?v2 = "\<lparr>rx = [Data ''Message received''], tx = []\<rparr>"
  let ?v3 = "\<lparr>rx = [Fail (OtherError ''TimeoutError'')], tx = []\<rparr>"
  have n: "map of_char ''hi'' \<noteq> ([] :: nat list)" by simp
  have t: "sock_send (''2'' @ replicate 63 (CHR '' '')) ?v1
      = SendRaises BrokenPipeError \<lparr>rx = [], tx = []\<rparr>"
    by (simp add: sock_send_def)
  note s1 = send_lost [OF hi_frame t]
  note s2 = send_ok [OF bye_frame sock_send_free sock_send_free recv_ack decode_ack]
  have r: "recv 2048 ?v3 = Raises (OtherError ''TimeoutError'') \<lparr>rx = [], tx = []\<rparr>"
    by (simp add: recv_def PY_SSIZE_T_MAX_def)
  have s3: "send (map of_char ''hi'') ?v3 =
     Raise (OtherError ''TimeoutError'')
       [Send (''2'' @ replicate 63 (CHR '' '')) None, Send ''hi'' None,
        Recv 2048 (Inl (OtherError ''TimeoutError''))]
       \<lparr>rx = [], tx = []\<rparr>"
    by (rule send_recv_Raises [OF hi_frame sock_send_free sock_send_free r]) simp_all
  have c1: "client_main [Line (map of_char ''hi'')] ?v1 =
     Normal ()
       (Print Banner # Input (Inr (map of_char ''hi'')) #
        [Send (''2'' @ replicate 63 (CHR '' '')) (Some BrokenPipeError), Print ErrorLost] @
        [Print ClosingClient, Close])
       \<lparr>rx = [], tx = []\<rparr>"
    using client_close [of "[]" "\<lparr>rx = [], tx = []\<rparr>" ?v1 "[]"] n s1 by blast
  have c2: "client_main [Line MSG_DISCONNECT] ?v2 =
     Normal ()
       (Print Banner # Input (Inr MSG_DISCONNECT) #
        [Send (''11'' @ replicate 62 (CHR '' '')) None, Send ''!Disconnect'' None,
         Recv 2048 (Inr ''Message received''), Print (Server ACK)] @
        [Print ClosingClient, Close])
       \<lparr>rx = [], tx = []\<rparr>"
    using client_close [of "[]" "\<lparr>rx = [], tx = []\<rparr>" ?v2 "[]"] s2 by blast
  have c3: "client_main [Line (map of_char ''hi'')] ?v3 =
     Raise (OtherError ''TimeoutError'')
       (Print Banner # Input (Inr (map of_char ''hi'')) #
        [Send (''2'' @ replicate 63 (CHR '' '')) None, Send ''hi'' None,
         Recv 2048 (Inl (OtherError ''TimeoutError''))])
       \<lparr>rx = [], tx = []\<rparr>"
    using client_close [of "[]" "\<lparr>rx = [], tx = []\<rparr>" ?v3 "[]"] n s3 by blast
  show ?thesis using n s1 s2 s3 c1 c2 c3 by simp
qed

section \<open>Acknowledgments and empty frames\<close>




text \<open>
  C10.  Whatever the operator types and whatever the network does, every \<^verbatim>\<open>send\<close> call of
  the client carries the header or the payload of a frame made from a typed line that is
  not empty; the payload of that frame has at least one byte and its header is the
  decimal form of that length, at least 1, padded with spaces.  When the length fits the
  header, the server's decoding of the header gives that positive length.
\<close>

theorem client_frames_nonempty:
  assumes "Send b r \<in> set (trace (client_main ins w))"
  shows "\<exists>message h m.
           Line message \<in> set ins \<and> message \<noteq> [] \<and> frame message = Inr (h, m) \<and>
           (b = h \<or> b = m) \<and> utf8_encode message = Inr m \<and> 1 \<le> length m \<and>
           h = map char_of (py_str (length m)) @
               replicate (64 - length (py_str (length m))) (CHR '' '') \<and>
           (length (py_str (length m)) \<le> 64 \<longrightarrow>
              decode_header U h = Inr (Some (int (length m))) \<and> 0 < int (length m))"
proof -
  have "Send b r \<in> set (trace (main_loop ins w))"
    using assms by (cases "main_loop ins w") (auto simp: client_main_def)
  from Send_in_main_loop [OF this] obtain message h m where
    l: "Line message \<in> set ins" and ne: "message \<noteq> []" and
    f: "frame message = Inr (h, m)" and bb: "b = h \<or> b = m" by blast
  from frame_Inr [OF f] have e: "utf8_encode message = Inr m" and
    h: "h = map char_of (py_str (length m)) @
               replicate (64 - length (py_str (length m))) (CHR '' '')" by simp_all
  from utf8_encode_nonempty [OF e ne] have m: "1 \<le> length m"
    by (cases m) simp_all
  have d: "decode_header U h = Inr (Some (int (length m))) \<and> 0 < int (length m)"
    if "length (py_str (length m)) \<le> 64"
    using decode_header_frame [OF that, of U] h m by auto
  show ?thesis using l ne f bb e m h d by blast
qed

theorem client_frames_nonempty_witness:
  "Send (''2'' @ replicate 63 (CHR '' '')) None \<in>
     set (trace (client_main [Line [], Line (map of_char ''hi'')]
                   \<lparr>rx = [Data ''Message received''], tx = []\<rparr>)) \<and>
   decode_header latin1_db (''2'' @ replicate 63 (CHR '' '')) = Inr (Some 2)"
proof -
  have a: "Send (''2'' @ replicate 63 (CHR '' '')) None \<in>
     set (trace (client_main [Line [], Line (map of_char ''hi'')]
                   \<lparr>rx = [Data ''Message received''], tx = []\<rparr>))"
    unfolding hi_run by simp
  from client_frames_nonempty [OF a, of latin1_db] obtain message h m where
    l: "Line message \<in> set [Line [], Line (map of_char ''hi'')]" and
    ne: "message \<noteq> []" and
    f: "frame message = Inr (h, m)" and
    d: "length (py_str (length m)) \<le> 64 \<longrightarrow>
          decode_header latin1_db h = Inr (Some (int (length m))) \<and> 0 < int (length m)"
    by blast
  from l ne have "message = map of_char ''hi''" by auto
  with f hi_frame have hm: "h = ''2'' @ replicate 63 (CHR '' '')" "m = ''hi''" by simp_all
  have "length (py_str (length ''hi'')) \<le> 64" by (simp add: py_str.simps)
  with d hm have "decode_header latin1_db (''2'' @ replicate 63 (CHR '' '')) = Inr (Some 2)"
    by simp
  with a show ?thesis by simp
qed

end
